theory Spec2Isabelle
  imports Complex_Main "HOL-Library.Multiset"
begin

section \<open>WFDE5 to SHETRAN: a shallow embedding\<close>

text \<open>
  The repository holds one script (\<^verbatim>\<open>WFDE5-To-SHETRAN.py\<close>) and one module of helper
  functions (\<^verbatim>\<open>CustomFunctionsToSHETRAN.py\<close>). The script resolves a geographic box
  to an index window, clips every monthly NetCDF file to that window, flattens each
  clipped grid into a table with one column per cell, and merges the monthly tables
  into one daily table.

  Conventions of the embedding:
  \<^item> floating-point numbers are modelled as \<^typ>\<open>real\<close>: rounding error, infinities and
    NaN are outside the model;
  \<^item> Python integers are \<^typ>\<open>int\<close>; a position produced by \<^verbatim>\<open>range\<close> or
    \<^verbatim>\<open>argmin\<close> is a \<^typ>\<open>nat\<close>;
  \<^item> an exception is a value \<open>Inl e\<close> of a sum type, a normal result is \<open>Inr v\<close>;
  \<^item> a calendar timestamp is the number of hours since 1900-01-01 00:00:00, the epoch
    of the script's \<^verbatim>\<open>DateIndex\<close>; timestamps are naive (no time zone), so the calendar
    day of timestamp \<open>h\<close> is \<open>h div 24\<close>.
\<close>

datatype py_error = IndexError | ValueError

type_synonym timestamp = int

subsection \<open>Python slicing\<close>

text \<open>
  \<^verbatim>\<open>xs[a:b]\<close> for integers \<open>a\<close>, \<open>b\<close>: a negative bound counts from the end, and
  every bound is clamped to the length. Slicing never raises. NumPy arrays, netCDF4
  variables and positional slices of a pandas Series follow the same rule.
\<close>

definition slice_bound :: "int \<Rightarrow> nat \<Rightarrow> nat" where
  "slice_bound i n = (if i < 0 then nat (max (i + int n) 0) else min (nat i) n)"

definition py_slice :: "int \<Rightarrow> int \<Rightarrow> 'a list \<Rightarrow> 'a list" where
  "py_slice a b xs =
     (let s = slice_bound a (length xs); e = slice_bound b (length xs)
      in take (e - s) (drop s xs))"

subsection \<open>Tables\<close>

text \<open>
  A pandas DataFrame with numeric cells: the number of columns, and the rows in order,
  each with its index label. Columns are addressed by position.
\<close>

record dataframe =
  ncols :: nat
  rows :: "(int \<times> real list) list"

definition index :: "dataframe \<Rightarrow> int list" where
  "index df = map fst (rows df)"

definition nrows :: "dataframe \<Rightarrow> nat" where
  "nrows df = length (rows df)"

definition cell :: "dataframe \<Rightarrow> nat \<Rightarrow> nat \<Rightarrow> real" where
  "cell df i j = snd (rows df ! i) ! j"

definition column :: "dataframe \<Rightarrow> nat \<Rightarrow> real list" where
  "column df j = map (\<lambda>r. snd r ! j) (rows df)"

text \<open>Every row of a well-formed table has one cell per column.\<close>

definition wf_df :: "dataframe \<Rightarrow> bool" where
  "wf_df df = list_all (\<lambda>r. length (snd r) = ncols df) (rows df)"

subsection \<open>Sentinel repair (script, lines 197--200)\<close>

text \<open>
  \<^verbatim>\<open>Replacer = lambda x: 0.001 if x>1000 else x\<close>
  \<^verbatim>\<open>for Col in Mdf.columns: Mdf[Col] = Mdf[Col].map(Replacer)\<close>
\<close>

definition Replacer :: "real \<Rightarrow> real" where
  "Replacer x = (if x > 1000 then 1 / 1000 else x)"

definition map_column :: "(real \<Rightarrow> real) \<Rightarrow> nat \<Rightarrow> dataframe \<Rightarrow> dataframe" where
  "map_column f j df = df\<lparr>rows := map (\<lambda>r. (fst r, (snd r)[j := f (snd r ! j)])) (rows df)\<rparr>"

definition repair :: "dataframe \<Rightarrow> dataframe" where
  "repair df = fold (map_column Replacer) [0..<ncols df] df"

subsection \<open>Bounding-box resolver (script, lines 100--104)\<close>

text \<open>
  \<^verbatim>\<open>IdxNorth = (np.abs(Lats - North)).argmin() + 1\<close>
  \<^verbatim>\<open>IdxSouth = (np.abs(Lats - South)).argmin()\<close>
  \<^verbatim>\<open>IdxWest  = (np.abs(Lons - West)).argmin()\<close>
  \<^verbatim>\<open>IdxEast  = (np.abs(Lons - East)).argmin() + 1\<close>

  NumPy's \<^verbatim>\<open>argmin\<close> scans from the left and keeps the first position of the least
  value; on an empty array it raises ValueError.
\<close>

fun argmin_from :: "real list \<Rightarrow> nat \<Rightarrow> nat \<Rightarrow> real \<Rightarrow> nat" where
  "argmin_from [] i best bv = best"
| "argmin_from (x # xs) i best bv =
     (if x < bv then argmin_from xs (Suc i) i x else argmin_from xs (Suc i) best bv)"

definition np_argmin :: "real list \<Rightarrow> py_error + nat" where
  "np_argmin xs = (case xs of [] \<Rightarrow> Inl ValueError | x # rest \<Rightarrow> Inr (argmin_from rest 1 0 x))"

definition np_sub :: "real list \<Rightarrow> real \<Rightarrow> real list" where
  "np_sub xs c = map (\<lambda>x. x - c) xs"

definition np_abs :: "real list \<Rightarrow> real list" where
  "np_abs xs = map abs xs"

definition IdxNorth :: "real list \<Rightarrow> real \<Rightarrow> py_error + int" where
  "IdxNorth Lats North =
     (case np_argmin (np_abs (np_sub Lats North)) of Inl e \<Rightarrow> Inl e | Inr i \<Rightarrow> Inr (int i + 1))"

definition IdxSouth :: "real list \<Rightarrow> real \<Rightarrow> py_error + int" where
  "IdxSouth Lats South =
     (case np_argmin (np_abs (np_sub Lats South)) of Inl e \<Rightarrow> Inl e | Inr i \<Rightarrow> Inr (int i))"

definition IdxWest :: "real list \<Rightarrow> real \<Rightarrow> py_error + int" where
  "IdxWest Lons West =
     (case np_argmin (np_abs (np_sub Lons West)) of Inl e \<Rightarrow> Inl e | Inr i \<Rightarrow> Inr (int i))"

definition IdxEast :: "real list \<Rightarrow> real \<Rightarrow> py_error + int" where
  "IdxEast Lons East =
     (case np_argmin (np_abs (np_sub Lons East)) of Inl e \<Rightarrow> Inl e | Inr i \<Rightarrow> Inr (int i + 1))"

text \<open>
  The resolver's contract in the specification's words: position \<open>i\<close> holds a coordinate
  at least as close to the target as every other, and no earlier position is as close.
\<close>

definition nearest_first :: "real list \<Rightarrow> real \<Rightarrow> nat \<Rightarrow> bool" where
  "nearest_first coords target i =
     (i < length coords \<and>
      (\<forall>j < length coords. \<bar>coords ! i - target\<bar> \<le> \<bar>coords ! j - target\<bar>) \<and>
      (\<forall>j < i. \<bar>coords ! i - target\<bar> < \<bar>coords ! j - target\<bar>))"

subsection \<open>Grid datasets\<close>

text \<open>
  A three-dimensional NetCDF variable indexed [time, latitude, longitude]: its shape,
  the numbers it stores (only those inside the shape are meaningful), and the values
  that netCDF4 masks when it reads the variable with masking on: those equal to the
  variable's \<^verbatim>\<open>_FillValue\<close> or \<^verbatim>\<open>missing_value\<close> attribute, or to the default fill
  value when it has neither.
\<close>

record ndarray3 =
  shape3 :: "nat \<times> nat \<times> nat"
  at3 :: "nat \<Rightarrow> nat \<Rightarrow> nat \<Rightarrow> real"
  missing3 :: "real \<Rightarrow> bool"

text \<open>
  A NetCDF dataset with the four variables the code reads: \<^verbatim>\<open>time\<close> (integer hours
  since the epoch), \<^verbatim>\<open>lon\<close>, \<^verbatim>\<open>lat\<close> and the rainfall flux \<^verbatim>\<open>Rainf\<close>. The script calls
  the helper functions with the variable names \<^verbatim>\<open>'Rainf'\<close>, \<^verbatim>\<open>'lon'\<close> and \<^verbatim>\<open>'lat'\<close>; the
  embedding fixes these names, so a missing variable is excluded by the type. The
  coordinate variables hold no masked value.
\<close>

record dataset =
  time :: "int list"
  lon :: "real list"
  lat :: "real list"
  Rainf :: ndarray3

text \<open>
  The invariant of a grid dataset: the variable's dimensions are the lengths of the
  coordinate arrays.
\<close>

definition wf_dataset :: "dataset \<Rightarrow> bool" where
  "wf_dataset D = (shape3 (Rainf D) = (length (time D), length (lat D), length (lon D)))"

text \<open>The files on disk: NetCDF files and CSV files by path.\<close>

type_synonym nc_store = "string \<rightharpoonup> dataset"

type_synonym csv_store = "string \<rightharpoonup> dataframe"

subsection \<open>Spatial clipper (module, lines 116--158)\<close>

text \<open>
  \<^verbatim>\<open>a[:, s:n, w:e]\<close> on a three-dimensional variable: the time axis whole, the other
  two sliced as Python slices. With masking on (the default, and the clipper does not
  switch it off) the result is a masked array: the stored numbers, and the mask on
  those the variable counts as missing.
\<close>

definition slice3 :: "int \<Rightarrow> int \<Rightarrow> int \<Rightarrow> int \<Rightarrow> ndarray3 \<Rightarrow> ndarray3" where
  "slice3 s n w e a =
     (case shape3 a of (nT, nLat, nLon) \<Rightarrow>
        let s' = slice_bound s nLat; n' = slice_bound n nLat;
            w' = slice_bound w nLon; e' = slice_bound e nLon
        in \<lparr>shape3 = (nT, n' - s', e' - w'),
            at3 = (\<lambda>t i j. at3 a t (s' + i) (w' + j)),
            missing3 = missing3 a\<rparr>)"

text \<open>
  \<^verbatim>\<open>VarRainf = WFDE5Clip.createVariable('Rainf','float',('Rainf','lat','lon'))\<close>
  \<^verbatim>\<open>VarRainf[:] = WFDE5ClipRainf\<close>
  The new variable has a first dimension of its own, \<^verbatim>\<open>'Rainf'\<close>, created unlimited
  with length 0; it grows to the array's time length when elements are written, and an
  array without elements writes none. A masked element is written as the fill value of
  the new variable, which has no \<^verbatim>\<open>_FillValue\<close> attribute: the default fill value of
  doubles, 9.969209968386869e+36. For a well-formed source the latitude and longitude
  extents of the array are the lengths of the coordinates written beside it.
\<close>

definition default_fill :: real where
  "default_fill = 9969209968386869 * 10 ^ 21"

definition nc_write3 :: "ndarray3 \<Rightarrow> ndarray3" where
  "nc_write3 a =
     (case shape3 a of (nT, nLat, nLon) \<Rightarrow>
        \<lparr>shape3 = (if nT * nLat * nLon = 0 then 0 else nT, nLat, nLon),
         at3 = (\<lambda>t i j. if missing3 a (at3 a t i j) then default_fill else at3 a t i j),
         missing3 = (\<lambda>v. v = default_fill)\<rparr>)"

text \<open>
  \<^verbatim>\<open>WFDE5ClipTime  = FileRaw.variables['time'][:]\<close>
  \<^verbatim>\<open>WFDE5ClipLon   = FileRaw.variables['lon'][IdxWest:IdxEast]\<close>
  \<^verbatim>\<open>WFDE5ClipLat   = FileRaw.variables['lat'][IdxSouth:IdxNorth]\<close>
  \<^verbatim>\<open>WFDE5ClipRainf = FileRaw.variables['Rainf'][:,IdxSouth:IdxNorth,IdxWest:IdxEast]\<close>
  The four arrays are then written as the variables of a new dataset at
  \<^verbatim>\<open>FileClipped\<close>. The function reads \<^verbatim>\<open>FileRaw\<close> and has no statement that raises.
\<close>

definition WFDE5NetCDFClipper ::
  "nc_store \<Rightarrow> string \<Rightarrow> dataset \<Rightarrow> int \<Rightarrow> int \<Rightarrow> int \<Rightarrow> int \<Rightarrow> string \<Rightarrow> nc_store" where
  "WFDE5NetCDFClipper fs Path FileRaw iWest iEast iNorth iSouth FileClipped =
     (let WFDE5ClipTime = time FileRaw;
          WFDE5ClipLon = py_slice iWest iEast (lon FileRaw);
          WFDE5ClipLat = py_slice iSouth iNorth (lat FileRaw);
          WFDE5ClipRainf = slice3 iSouth iNorth iWest iEast (Rainf FileRaw)
      in fs(FileClipped \<mapsto>
            \<lparr>time = WFDE5ClipTime, lon = WFDE5ClipLon, lat = WFDE5ClipLat,
             Rainf = nc_write3 WFDE5ClipRainf\<rparr>))"

text \<open>A window bound lies past the end of its coordinate axis.\<close>

definition window_exceeds :: "dataset \<Rightarrow> int \<Rightarrow> int \<Rightarrow> int \<Rightarrow> int \<Rightarrow> bool" where
  "window_exceeds D iWest iEast iNorth iSouth =
     (iWest > int (length (lon D)) \<or> iEast > int (length (lon D)) \<or>
      iNorth > int (length (lat D)) \<or> iSouth > int (length (lat D)))"

text \<open>
  A small grid for the examples: 2 time steps, 2 latitudes, 3 longitudes, no-data
  value 1e20 (the \<^verbatim>\<open>_FillValue\<close> of the WFDE5 files). The second grid has a no-data
  cell at time 0, latitude 0, longitude 1.
\<close>

definition example_dataset :: dataset where
  "example_dataset =
     \<lparr>time = [0, 1], lon = [10, 11, 12], lat = [1, 2],
      Rainf = \<lparr>shape3 = (2, 2, 3), at3 = (\<lambda>t i j. real (100 * t + 10 * i + j)),
               missing3 = (\<lambda>v. v = 10 ^ 20)\<rparr>\<rparr>"

definition example_nodata :: dataset where
  "example_nodata =
     \<lparr>time = [0, 1], lon = [10, 11, 12], lat = [1, 2],
      Rainf = \<lparr>shape3 = (2, 2, 3),
               at3 = (\<lambda>t i j. if t = 0 \<and> i = 0 \<and> j = 1 then 10 ^ 20
                               else real (100 * t + 10 * i + j)),
               missing3 = (\<lambda>v. v = 10 ^ 20)\<rparr>\<rparr>"

subsection \<open>Grid-to-table flattener (module, lines 72--111)\<close>

text \<open>
  \<^verbatim>\<open>Data.variables[Variable][:,Lat,Lon]\<close>: the series of one cell. An integer index
  outside its axis raises IndexError.
\<close>

definition cell_series :: "ndarray3 \<Rightarrow> nat \<Rightarrow> nat \<Rightarrow> py_error + real list" where
  "cell_series a Lat Lon =
     (case shape3 a of (nT, nLat, nLon) \<Rightarrow>
        if Lat < nLat \<and> Lon < nLon then Inr (map (\<lambda>t. at3 a t Lat Lon) [0..<nT])
        else Inl IndexError)"

text \<open>
  \<^verbatim>\<open>np.round(x, 1)\<close> multiplies by ten, rounds to the nearest integer with ties to the
  even one, and divides by ten.
\<close>

definition rint :: "real \<Rightarrow> int" where
  "rint x =
     (let f = \<lfloor>x\<rfloor>; d = x - of_int f
      in if d < 1 / 2 then f else if d > 1 / 2 then f + 1 else if even f then f else f + 1)"

definition np_round1 :: "real \<Rightarrow> real" where
  "np_round1 x = of_int (rint (x * 10)) / 10"

text \<open>
  \<^verbatim>\<open>VarTimeSeries = Data.variables[Variable][:,Lat,Lon]\<close>
  \<^verbatim>\<open>VarTimeSeries = VarTimeSeries * UnitConversion\<close>
  \<^verbatim>\<open>VarTimeSeries = np.round(VarTimeSeries,1)\<close>
\<close>

definition converted_series :: "ndarray3 \<Rightarrow> real \<Rightarrow> nat \<Rightarrow> nat \<Rightarrow> py_error + real list" where
  "converted_series a UnitConversion Lat Lon =
     (case cell_series a Lat Lon of
        Inl e \<Rightarrow> Inl e
      | Inr VarTimeSeries \<Rightarrow> Inr (map np_round1 (map (\<lambda>v. v * UnitConversion) VarTimeSeries)))"

text \<open>
  The two nested loops, latitude outside and longitude inside, appending to
  \<^verbatim>\<open>VarTimeSeriesCells\<close>.
\<close>

fun lon_loop ::
  "ndarray3 \<Rightarrow> real \<Rightarrow> nat \<Rightarrow> nat list \<Rightarrow> real list list \<Rightarrow> py_error + real list list" where
  "lon_loop a uc Lat [] VarTimeSeriesCells = Inr VarTimeSeriesCells"
| "lon_loop a uc Lat (Lon # Lons) VarTimeSeriesCells =
     (case converted_series a uc Lat Lon of
        Inl e \<Rightarrow> Inl e
      | Inr VarTimeSeries \<Rightarrow> lon_loop a uc Lat Lons (VarTimeSeriesCells @ [VarTimeSeries]))"

fun lat_loop ::
  "ndarray3 \<Rightarrow> real \<Rightarrow> nat \<Rightarrow> nat list \<Rightarrow> real list list \<Rightarrow> py_error + real list list" where
  "lat_loop a uc NCols [] VarTimeSeriesCells = Inr VarTimeSeriesCells"
| "lat_loop a uc NCols (Lat # Lats) VarTimeSeriesCells =
     (case lon_loop a uc Lat [0..<NCols] VarTimeSeriesCells of
        Inl e \<Rightarrow> Inl e
      | Inr cells \<Rightarrow> lat_loop a uc NCols Lats cells)"

text \<open>
  \<^verbatim>\<open>pd.DataFrame(data = ...)\<close> of a list of equally long one-dimensional arrays: one
  row per array, labelled 0, 1, ...; an empty list gives the empty table.
  \<^verbatim>\<open>.transpose()\<close> turns the columns into rows, labelled by column position.
\<close>

definition pd_DataFrame :: "real list list \<Rightarrow> dataframe" where
  "pd_DataFrame data =
     \<lparr>ncols = (case data of [] \<Rightarrow> 0 | r # _ \<Rightarrow> length r),
      rows = zip (map int [0..<length data]) data\<rparr>"

definition transpose_df :: "dataframe \<Rightarrow> dataframe" where
  "transpose_df df =
     \<lparr>ncols = nrows df,
      rows = map (\<lambda>j. (int j, map (\<lambda>r. snd r ! j) (rows df))) [0..<ncols df]\<rparr>"

text \<open>
  \<^verbatim>\<open>df.index = labels\<close>: a table without columns takes an index of any length and
  then has one row, without cells, per label; on a table with columns pandas raises
  ValueError (length mismatch) unless there is exactly one label per row.
\<close>

definition set_index :: "dataframe \<Rightarrow> int list \<Rightarrow> py_error + dataframe" where
  "set_index df labels =
     (if ncols df = 0 then Inr (df\<lparr>rows := map (\<lambda>l. (l, [])) labels\<rparr>)
      else if length labels \<noteq> nrows df then Inl ValueError
      else Inr (df\<lparr>rows := zip labels (map snd (rows df))\<rparr>))"

text \<open>
  \<^verbatim>\<open>NCols = len(Data.variables[LongitudeName])\<close>
  \<^verbatim>\<open>NRows = len(Data.variables[LatitudeName])\<close>
  \<^verbatim>\<open>DfVarTimeSeriesCells = pd.DataFrame(data = VarTimeSeriesCells).transpose()\<close>
  \<^verbatim>\<open>DfVarTimeSeriesCells.index = Data.variables['time'][:]\<close>
  \<^verbatim>\<open>DfVarTimeSeriesCells.to_csv(path_or_buf=(Path + File))\<close>
  The result is the returned table and the CSV files after the write. The first loop
  of the function, \<^verbatim>\<open>set_auto_mask(False)\<close> on every variable, makes the reads return
  the stored numbers, fill values included; the arrays of the embedding are those
  numbers.
\<close>

definition NetCDFToSHETRAN ::
  "csv_store \<Rightarrow> dataset \<Rightarrow> string \<Rightarrow> string \<Rightarrow> real \<Rightarrow> py_error + dataframe \<times> csv_store" where
  "NetCDFToSHETRAN csvs Data Path File UnitConversion =
     (let NCols = length (lon Data); NRows = length (lat Data)
      in case lat_loop (Rainf Data) UnitConversion NCols [0..<NRows] [] of
           Inl e \<Rightarrow> Inl e
         | Inr VarTimeSeriesCells \<Rightarrow>
             (case set_index (transpose_df (pd_DataFrame VarTimeSeriesCells)) (time Data) of
                Inl e \<Rightarrow> Inl e
              | Inr DfVarTimeSeriesCells \<Rightarrow>
                  Inr (DfVarTimeSeriesCells, csvs(Path @ File \<mapsto> DfVarTimeSeriesCells))))"

text \<open>
  The flattener's contract in the specification's words: the series stored for cell
  (Lat, Lon) is the raw series times the conversion factor, rounded to one decimal.
\<close>

definition expected_series :: "ndarray3 \<Rightarrow> real \<Rightarrow> nat \<Rightarrow> nat \<Rightarrow> real list" where
  "expected_series a UnitConversion Lat Lon =
     map (\<lambda>t. np_round1 (at3 a t Lat Lon * UnitConversion)) [0..<fst (shape3 a)]"

text \<open>The list the two loops build: one converted series per cell, latitude by latitude.\<close>

definition grid_cells :: "dataset \<Rightarrow> real \<Rightarrow> real list list" where
  "grid_cells Data UnitConversion =
     concat (map (\<lambda>Lat. map (expected_series (Rainf Data) UnitConversion Lat)
                            [0..<length (lon Data)])
                 [0..<length (lat Data)])"

text \<open>A grid without latitudes: one time step, one longitude.\<close>

definition empty_grid :: dataset where
  "empty_grid =
     \<lparr>time = [0], lon = [10], lat = [],
      Rainf = \<lparr>shape3 = (1, 0, 1), at3 = (\<lambda>t i j. 0), missing3 = (\<lambda>v. v = 10 ^ 20)\<rparr>\<rparr>"

text \<open>
  The grid of the specification's example: 48 hourly steps, 2 latitudes, 3 longitudes,
  every raw value 10.
\<close>

definition example_grid48 :: dataset where
  "example_grid48 =
     \<lparr>time = map int [0..<48], lon = [10, 11, 12], lat = [1, 2],
      Rainf = \<lparr>shape3 = (48, 2, 3), at3 = (\<lambda>t i j. 10), missing3 = (\<lambda>v. v = 10 ^ 20)\<rparr>\<rparr>"

subsection \<open>Table merger (script, lines 171--203)\<close>

text \<open>
  \<^verbatim>\<open>Mdf = pd.concat(DfList)\<close> stacks the rows of the tables in list order and keeps
  every row; an empty list raises ValueError. The tables are the monthly CSV files of
  one clipping window, so they share their columns.
  \<^verbatim>\<open>Mdf = Mdf.sort_index(ascending = True)\<close> orders the rows by label. The sort of the
  embedding is stable; where all labels differ, every sort gives the same table.
\<close>

definition pd_concat :: "dataframe list \<Rightarrow> py_error + dataframe" where
  "pd_concat DfList =
     (case DfList of
        [] \<Rightarrow> Inl ValueError
      | Df # _ \<Rightarrow> Inr \<lparr>ncols = ncols Df, rows = concat (map rows DfList)\<rparr>)"

definition sort_index :: "dataframe \<Rightarrow> dataframe" where
  "sort_index df = df\<lparr>rows := sort_key fst (rows df)\<rparr>"

text \<open>
  \<^verbatim>\<open>DateIndex = pd.Series(pd.date_range(start='1900-01-01 00:00:00',\<close>
  \<^verbatim>\<open>                                    end = '2011-01-01 00:00:00', freq = 'H'))\<close>
  Every hour from the epoch to the end, both included; entry \<open>k\<close> is the timestamp
  \<open>k\<close> hours after the epoch.
\<close>

definition is_leap :: "nat \<Rightarrow> bool" where
  "is_leap y = (y mod 4 = 0 \<and> (y mod 100 \<noteq> 0 \<or> y mod 400 = 0))"

definition days_in_year :: "nat \<Rightarrow> nat" where
  "days_in_year y = (if is_leap y then 366 else 365)"

definition DateIndex_len :: nat where
  "DateIndex_len = 24 * sum_list (map days_in_year [1900..<2011]) + 1"

definition DateIndex :: "timestamp list" where
  "DateIndex = map int [0..<DateIndex_len]"

text \<open>
  \<^verbatim>\<open>Mdf.resample('D').sum()\<close>: one row per calendar day from the day of the earliest
  timestamp to the day of the latest, labelled by the day's midnight; each cell is the
  sum of the column over the rows of that day (zero for a day without rows).
\<close>

definition day_of :: "timestamp \<Rightarrow> int" where
  "day_of h = h div 24"

definition col_sums :: "nat \<Rightarrow> (int \<times> real list) list \<Rightarrow> real list" where
  "col_sums n rs = map (\<lambda>j. sum_list (map (\<lambda>r. snd r ! j) rs)) [0..<n]"

definition resample_D_sum :: "dataframe \<Rightarrow> dataframe" where
  "resample_D_sum df =
     (case index df of
        [] \<Rightarrow> df
      | h # hs \<Rightarrow>
          let first_day = day_of (fold min hs h); last_day = day_of (fold max hs h)
          in df\<lparr>rows := map (\<lambda>d. (24 * d,
                                  col_sums (ncols df) (filter (\<lambda>r. day_of (fst r) = d) (rows df))))
                            [first_day..last_day]\<rparr>)"

text \<open>
  \<^verbatim>\<open>MdfStart  = Mdf.index[0]\<close>
  \<^verbatim>\<open>MdfEnd    = Mdf.index[-1]+1\<close>
  \<^verbatim>\<open>Mdf.index = DateIndex[MdfStart:MdfEnd]\<close>
  \<^verbatim>\<open>Mdf = Mdf.resample('D').sum()\<close>
  Indexing an empty index raises IndexError; the index assignment raises ValueError on
  a length mismatch when the table has a column.
\<close>

definition Mdf_daily :: "dataframe list \<Rightarrow> py_error + dataframe" where
  "Mdf_daily DfList =
     (case pd_concat DfList of
        Inl e \<Rightarrow> Inl e
      | Inr Mdf0 \<Rightarrow>
          let Mdf = sort_index Mdf0
          in case index Mdf of
               [] \<Rightarrow> Inl IndexError
             | _ # _ \<Rightarrow>
                 let MdfStart = hd (index Mdf); MdfEnd = last (index Mdf) + 1
                 in case set_index Mdf (py_slice MdfStart MdfEnd DateIndex) of
                      Inl e \<Rightarrow> Inl e
                    | Inr Mdf' \<Rightarrow> Inr (resample_D_sum Mdf'))"


text \<open>Two monthly tables with one column, every hourly value 1.\<close>

definition january :: dataframe where
  "january = \<lparr>ncols = 1, rows = map (\<lambda>h. (h, [1])) [0..743]\<rparr>"

definition february :: dataframe where
  "february = \<lparr>ncols = 1, rows = map (\<lambda>h. (h, [1])) [744..1487]\<rparr>"

subsection \<open>ASC grid parser (module, lines 163--187)\<close>

text \<open>
  \<^verbatim>\<open>Line.rstrip()\<close> and \<^verbatim>\<open>str.split()\<close> on ASCII text: the white-space characters
  are space, tab, line feed, vertical tab, form feed, carriage return and the four
  separators 0x1C--0x1F.
\<close>

definition is_space :: "char \<Rightarrow> bool" where
  "is_space c = (c \<in> set [CHR '' '', CHR 0x09, CHR 0x0A, CHR 0x0B, CHR 0x0C, CHR 0x0D,
                           CHR 0x1C, CHR 0x1D, CHR 0x1E, CHR 0x1F])"

definition rstrip :: "string \<Rightarrow> string" where
  "rstrip s = rev (dropWhile is_space (rev s))"

fun tokens :: "string \<Rightarrow> string \<Rightarrow> string list" where
  "tokens [] cur = (if cur = [] then [] else [cur])"
| "tokens (c # cs) cur =
     (if is_space c then (if cur = [] then tokens cs [] else cur # tokens cs [])
      else tokens cs (cur @ [c]))"

definition split_ws :: "string \<Rightarrow> string list" where
  "split_ws s = tokens s []"

text \<open>
  \<^verbatim>\<open>DfParam = pd.DataFrame(np.zeros([Nrows,Ncols]))\<close> starts as a table of zeros; the
  loops store parameter strings in it, so a cell holds a number or a string.
  \<^verbatim>\<open>DfParam.iloc[Line,Col] = ParamStr\<close> raises IndexError outside the table.
\<close>

datatype cellv = Num real | Str string

definition np_zeros :: "nat \<Rightarrow> nat \<Rightarrow> cellv list list" where
  "np_zeros Nrows Ncols = replicate Nrows (replicate Ncols (Num 0))"

definition iloc_set :: "cellv list list \<Rightarrow> nat \<Rightarrow> nat \<Rightarrow> cellv \<Rightarrow> py_error + cellv list list" where
  "iloc_set DfParam Line Col v =
     (if Line < length DfParam \<and> Col < length (DfParam ! Line)
      then Inr (DfParam[Line := (DfParam ! Line)[Col := v]])
      else Inl IndexError)"

fun col_loop :: "cellv list list \<Rightarrow> nat \<Rightarrow> string list \<Rightarrow> nat \<Rightarrow> py_error + cellv list list" where
  "col_loop DfParam Line [] Col = Inr DfParam"
| "col_loop DfParam Line (ParamStr # ColList) Col =
     (case iloc_set DfParam Line Col (Str ParamStr) of
        Inl e \<Rightarrow> Inl e
      | Inr DfParam' \<Rightarrow> col_loop DfParam' Line ColList (Suc Col))"

fun line_loop :: "cellv list list \<Rightarrow> string list \<Rightarrow> nat \<Rightarrow> py_error + cellv list list" where
  "line_loop DfParam [] Line = Inr DfParam"
| "line_loop DfParam (l # Lines) Line =
     (case col_loop DfParam Line (split_ws l) 0 of
        Inl e \<Rightarrow> Inl e
      | Inr DfParam' \<Rightarrow> line_loop DfParam' Lines (Suc Line))"

text \<open>
  \<^verbatim>\<open>np.float64(DfParam.iloc[:,:])\<close> converts every cell to a float and raises ValueError
  on a string that is no float literal. The conversion of a string is a parameter
  \<open>str_to_float\<close> of the embedding (\<open>None\<close>: not a float literal).
\<close>

fun float_cell :: "(string \<Rightarrow> real option) \<Rightarrow> cellv \<Rightarrow> py_error + real" where
  "float_cell str_to_float (Num x) = Inr x"
| "float_cell str_to_float (Str s) =
     (case str_to_float s of None \<Rightarrow> Inl ValueError | Some x \<Rightarrow> Inr x)"

fun float_row :: "(string \<Rightarrow> real option) \<Rightarrow> cellv list \<Rightarrow> py_error + real list" where
  "float_row str_to_float [] = Inr []"
| "float_row str_to_float (c # cs) =
     (case float_cell str_to_float c of
        Inl e \<Rightarrow> Inl e
      | Inr x \<Rightarrow> (case float_row str_to_float cs of Inl e \<Rightarrow> Inl e | Inr xs \<Rightarrow> Inr (x # xs)))"

fun np_float64 :: "(string \<Rightarrow> real option) \<Rightarrow> cellv list list \<Rightarrow> py_error + real list list" where
  "np_float64 str_to_float [] = Inr []"
| "np_float64 str_to_float (r # rs) =
     (case float_row str_to_float r of
        Inl e \<Rightarrow> Inl e
      | Inr xs \<Rightarrow> (case np_float64 str_to_float rs of Inl e \<Rightarrow> Inl e | Inr xss \<Rightarrow> Inr (xs # xss)))"

text \<open>
  \<^verbatim>\<open>Lines = File.readlines(); Lines = [Line.rstrip() for Line in Lines]\<close>
  \<^verbatim>\<open>Lines = Lines [6:]\<close>
  The function is given the lines of the file at \<^verbatim>\<open>Path\<close>.
\<close>

definition ASCtoDfParam ::
  "(string \<Rightarrow> real option) \<Rightarrow> string list \<Rightarrow> nat \<Rightarrow> nat \<Rightarrow> py_error + dataframe" where
  "ASCtoDfParam str_to_float FileLines Nrows Ncols =
     (let Lines = drop 6 (map rstrip FileLines)
      in case line_loop (np_zeros Nrows Ncols) Lines 0 of
           Inl e \<Rightarrow> Inl e
         | Inr DfParam \<Rightarrow>
             (case np_float64 str_to_float DfParam of
                Inl e \<Rightarrow> Inl e
              | Inr floats \<Rightarrow> Inr \<lparr>ncols = Ncols, rows = zip (map int [0..<Nrows]) floats\<rparr>))"

text \<open>The tokens of data line \<open>i\<close> of the file (after the six header lines).\<close>

definition asc_tokens :: "string list \<Rightarrow> nat \<Rightarrow> string list" where
  "asc_tokens FileLines i = split_ws (rstrip (drop 6 FileLines ! i))"

text \<open>
  A float parser for the examples: plain decimal literals, an optional sign, digits
  and an optional fraction. Every string it accepts is a float literal of Python with
  the same value; the string \<^verbatim>\<open>abc\<close>, which it rejects, is no float literal of Python.
\<close>

definition is_digit :: "char \<Rightarrow> bool" where
  "is_digit c = (c \<in> set ''0123456789'')"

definition digit_of :: "char \<Rightarrow> nat" where
  "digit_of c = of_char c - of_char (CHR ''0'')"

definition nat_of_digits :: "string \<Rightarrow> nat" where
  "nat_of_digits ds = foldl (\<lambda>n c. 10 * n + digit_of c) 0 ds"

definition unsigned_literal :: "string \<Rightarrow> real option" where
  "unsigned_literal s =
     (let ip = takeWhile is_digit s; rest = dropWhile is_digit s
      in case rest of
           [] \<Rightarrow> if ip = [] then None else Some (real (nat_of_digits ip))
         | c # fp \<Rightarrow>
             if c = CHR ''.'' \<and> list_all is_digit fp \<and> (ip \<noteq> [] \<or> fp \<noteq> [])
             then Some (real (nat_of_digits ip) + real (nat_of_digits fp) / 10 ^ length fp)
             else None)"

definition decimal_literal :: "string \<Rightarrow> real option" where
  "decimal_literal s =
     (case s of
        [] \<Rightarrow> None
      | c # r \<Rightarrow>
          if c = CHR ''-'' then map_option uminus (unsigned_literal r)
          else if c = CHR ''+'' then unsigned_literal r
          else unsigned_literal s)"

definition asc_header :: "string list" where
  "asc_header = [''ncols 3'', ''nrows 2'', ''xllcorner 0'', ''yllcorner 0'', ''cellsize 1'',
                 ''NODATA_value -9999'']"

section \<open>Sentinel repair\<close>

lemma Replacer_small: "Replacer (1 / 1000) = 1 / 1000"
  by (simp add: Replacer_def)

text \<open>
  C9. The sentinel repair is idempotent: repairing a repaired value changes nothing,
  because the replacement 0.001 is itself not above the threshold.
\<close>

theorem C9_Replacer_idempotent: "Replacer (Replacer x) = Replacer x"
  by (simp add: Replacer_def)

lemma rows_map_column:
  "rows (map_column f j df) = map (\<lambda>r. (fst r, (snd r)[j := f (snd r ! j)])) (rows df)"
  by (simp add: map_column_def)

lemma fold_map_column_rows:
  "rows (fold (map_column f) [0..<k] df) =
     map (\<lambda>r. (fst r, map f (take k (snd r)) @ drop k (snd r))) (rows df)"
proof (induction k)
  case 0
  show ?case by simp
next
  case (Suc k)
  have step: "(map f (take k xs) @ drop k xs)[k := f ((map f (take k xs) @ drop k xs) ! k)]
                = map f (take (Suc k) xs) @ drop (Suc k) xs" for xs :: "real list"
  proof (cases "k < length xs")
    case True
    then have "drop k xs = xs ! k # drop (Suc k) xs"
      by (simp add: Cons_nth_drop_Suc)
    with True show ?thesis
      by (simp add: list_update_append nth_append take_Suc_conv_app_nth)
  next
    case False
    then show ?thesis by (simp add: list_update_beyond)
  qed
  have "rows (fold (map_column f) [0..<Suc k] df)
          = rows (map_column f k (fold (map_column f) [0..<k] df))"
    by simp
  also have "\<dots> = map (\<lambda>r. (fst r, (snd r)[k := f (snd r ! k)]))
                     (rows (fold (map_column f) [0..<k] df))"
    by (rule rows_map_column)
  also have "\<dots> = map (\<lambda>r. (fst r, map f (take (Suc k) (snd r)) @ drop (Suc k) (snd r))) (rows df)"
    by (simp add: Suc.IH step)
  finally show ?case .
qed

lemma fold_map_column_ncols: "ncols (fold (map_column f) [0..<k] df) = ncols df"
  by (induction k) (simp_all add: map_column_def)

lemma repaired_rows:
  assumes "wf_df df"
  shows "rows (repair df) = map (\<lambda>r. (fst r, map Replacer (snd r))) (rows df)"
proof -
  have "\<forall>r \<in> set (rows df). length (snd r) = ncols df"
    using assms by (simp add: wf_df_def list_all_iff)
  then show ?thesis
    by (simp add: repair_def fold_map_column_rows)
qed

text \<open>
  C1, as the specification words it, fails: the script's test is \<open>x > 1000\<close>, a signed
  comparison, so a value below \<open>-1000\<close> has a magnitude above 1000 and is kept.
\<close>

theorem C1_magnitude_counterexample:
  "\<bar>- 2000 :: real\<bar> > 1000 \<and>
   cell (repair \<lparr>ncols = 1, rows = [(0, [- 2000])]\<rparr>) 0 0 = - 2000"
  by (simp add: repair_def map_column_def cell_def Replacer_def)

text \<open>
  C1, amended. In the repaired table every cell that exceeds 1000 (signed comparison)
  is exactly 0.001 and every cell that is at most 1000 is the cell of the resampled
  table, for every row and every column; labels and shape are kept.
\<close>

theorem C1_repair_cells:
  assumes "wf_df df"
  shows "ncols (repair df) = ncols df \<and> index (repair df) = index df \<and> wf_df (repair df) \<and>
         (\<forall>i < nrows df. \<forall>j < ncols df.
            cell (repair df) i j = (if cell df i j > 1000 then 1 / 1000 else cell df i j))"
proof -
  have len: "\<forall>r \<in> set (rows df). length (snd r) = ncols df"
    using assms by (simp add: wf_df_def list_all_iff)
  have n: "ncols (repair df) = ncols df"
    by (simp add: repair_def fold_map_column_ncols)
  have r: "rows (repair df) = map (\<lambda>r. (fst r, map Replacer (snd r))) (rows df)"
    by (rule repaired_rows [OF assms])
  have i: "index (repair df) = index df"
    by (simp add: index_def r comp_def)
  have w: "wf_df (repair df)"
    using len by (simp add: wf_df_def list_all_iff r n)
  have c: "cell (repair df) i j = (if cell df i j > 1000 then 1 / 1000 else cell df i j)"
    if "i < nrows df" "j < ncols df" for i j
  proof -
    from that(1) have "rows df ! i \<in> set (rows df)"
      by (simp add: nrows_def)
    with len that(2) have "j < length (snd (rows df ! i))"
      by simp
    with that(1) show ?thesis
      by (simp add: cell_def r nrows_def Replacer_def)
  qed
  from n i w c show ?thesis by blast
qed

theorem C1_repair_cells_witness:
  "wf_df \<lparr>ncols = 2, rows = [(0, [1500, 3]), (24, [- 2000, 1000])]\<rparr> \<and>
   rows (repair \<lparr>ncols = 2, rows = [(0, [1500, 3]), (24, [- 2000, 1000])]\<rparr>)
     = [(0, [1 / 1000, 3]), (24, [- 2000, 1000])] \<and>
   cell (repair \<lparr>ncols = 2, rows = [(0, [1500, 3]), (24, [- 2000, 1000])]\<rparr>) 0 0 = 1 / 1000"
proof -
  let ?df = "\<lparr>ncols = 2, rows = [(0, [1500, 3]), (24, [- 2000, 1000 :: real])]\<rparr>"
  have w: "wf_df ?df"
    by (simp add: wf_df_def)
  have r: "rows (repair ?df) = [(0, [1 / 1000, 3]), (24, [- 2000, 1000])]"
    by (simp add: repaired_rows [OF w] Replacer_def)
  from C1_repair_cells [OF w] have "cell (repair ?df) 0 0 = 1 / 1000"
    by (simp add: nrows_def cell_def)
  with w r show ?thesis by simp
qed

section \<open>Bounding-box resolver\<close>

lemma argmin_from_nearest:
  assumes "length pre = i" "best < i" "pre ! best = bv"
    and "\<forall>j < i. bv \<le> pre ! j" and "\<forall>j < best. bv < pre ! j"
  shows "argmin_from xs i best bv < length (pre @ xs) \<and>
         (\<forall>j < length (pre @ xs). (pre @ xs) ! argmin_from xs i best bv \<le> (pre @ xs) ! j) \<and>
         (\<forall>j < argmin_from xs i best bv. (pre @ xs) ! argmin_from xs i best bv < (pre @ xs) ! j)"
  using assms
proof (induction xs arbitrary: pre i best bv)
  case Nil
  then show ?case by simp
next
  case (Cons x xs)
  show ?case
  proof (cases "x < bv")
    case True
    have "argmin_from xs (Suc i) i x < length ((pre @ [x]) @ xs) \<and>
          (\<forall>j < length ((pre @ [x]) @ xs). ((pre @ [x]) @ xs) ! argmin_from xs (Suc i) i x \<le> ((pre @ [x]) @ xs) ! j) \<and>
          (\<forall>j < argmin_from xs (Suc i) i x. ((pre @ [x]) @ xs) ! argmin_from xs (Suc i) i x < ((pre @ [x]) @ xs) ! j)"
    proof (rule Cons.IH)
      show "length (pre @ [x]) = Suc i" using Cons.prems(1) by simp
      show "i < Suc i" by simp
      show "(pre @ [x]) ! i = x" using Cons.prems(1) by auto
      show "\<forall>j < Suc i. x \<le> (pre @ [x]) ! j"
        using Cons.prems(1,4) True by (auto simp: nth_append less_Suc_eq)
      show "\<forall>j < i. x < (pre @ [x]) ! j"
        using Cons.prems(1,4) True by (auto simp: nth_append)
    qed
    with True show ?thesis by simp
  next
    case False
    have "argmin_from xs (Suc i) best bv < length ((pre @ [x]) @ xs) \<and>
          (\<forall>j < length ((pre @ [x]) @ xs). ((pre @ [x]) @ xs) ! argmin_from xs (Suc i) best bv \<le> ((pre @ [x]) @ xs) ! j) \<and>
          (\<forall>j < argmin_from xs (Suc i) best bv. ((pre @ [x]) @ xs) ! argmin_from xs (Suc i) best bv < ((pre @ [x]) @ xs) ! j)"
    proof (rule Cons.IH)
      show "length (pre @ [x]) = Suc i" using Cons.prems(1) by simp
      show "best < Suc i" using Cons.prems(2) by simp
      show "(pre @ [x]) ! best = bv" using Cons.prems(1,2,3) by (simp add: nth_append)
      show "\<forall>j < Suc i. bv \<le> (pre @ [x]) ! j"
        using Cons.prems(1,4) False by (auto simp: nth_append less_Suc_eq)
      show "\<forall>j < best. bv < (pre @ [x]) ! j"
        using Cons.prems(1,2,5) by (auto simp: nth_append)
    qed
    with False show ?thesis by simp
  qed
qed

lemma np_argmin_first_least:
  assumes "xs \<noteq> []"
  shows "\<exists>i. np_argmin xs = Inr i \<and> i < length xs \<and>
             (\<forall>j < length xs. xs ! i \<le> xs ! j) \<and> (\<forall>j < i. xs ! i < xs ! j)"
proof -
  from assms obtain x rest where xs: "xs = x # rest"
    by (cases xs) auto
  have "argmin_from rest 1 0 x < length ([x] @ rest) \<and>
        (\<forall>j < length ([x] @ rest). ([x] @ rest) ! argmin_from rest 1 0 x \<le> ([x] @ rest) ! j) \<and>
        (\<forall>j < argmin_from rest 1 0 x. ([x] @ rest) ! argmin_from rest 1 0 x < ([x] @ rest) ! j)"
    by (rule argmin_from_nearest) simp_all
  then show ?thesis
    by (simp add: xs np_argmin_def)
qed

lemma nearest_index_ex:
  assumes "coords \<noteq> []"
  shows "\<exists>i. np_argmin (np_abs (np_sub coords target)) = Inr i \<and> nearest_first coords target i"
proof -
  have "np_abs (np_sub coords target) \<noteq> []"
    using assms by (simp add: np_abs_def np_sub_def)
  from np_argmin_first_least [OF this] obtain i where
    i: "np_argmin (np_abs (np_sub coords target)) = Inr i" "i < length coords"
       "\<forall>j < length coords. np_abs (np_sub coords target) ! i \<le> np_abs (np_sub coords target) ! j"
       "\<forall>j < i. np_abs (np_sub coords target) ! i < np_abs (np_sub coords target) ! j"
    by (auto simp: np_abs_def np_sub_def)
  then have "nearest_first coords target i"
    by (simp add: nearest_first_def np_abs_def np_sub_def)
  with i(1) show ?thesis by blast
qed

text \<open>
  C2. For non-empty coordinate arrays the resolver finds, for each of the four bounds,
  the first position whose coordinate is nearest to the bound; the north and east
  indices are that position plus one, the south and west indices are the position.
\<close>

theorem C2_bounding_box_resolver:
  assumes "Lats \<noteq> []" and "Lons \<noteq> []"
  shows "\<exists>n s w e.
           IdxNorth Lats North = Inr (int n + 1) \<and> nearest_first Lats North n \<and>
           IdxSouth Lats South = Inr (int s) \<and> nearest_first Lats South s \<and>
           IdxWest Lons West = Inr (int w) \<and> nearest_first Lons West w \<and>
           IdxEast Lons East = Inr (int e + 1) \<and> nearest_first Lons East e"
proof -
  from nearest_index_ex [OF assms(1)] obtain n where
    n: "np_argmin (np_abs (np_sub Lats North)) = Inr n" "nearest_first Lats North n"
    by blast
  from nearest_index_ex [OF assms(1)] obtain s where
    s: "np_argmin (np_abs (np_sub Lats South)) = Inr s" "nearest_first Lats South s"
    by blast
  from nearest_index_ex [OF assms(2)] obtain w where
    w: "np_argmin (np_abs (np_sub Lons West)) = Inr w" "nearest_first Lons West w"
    by blast
  from nearest_index_ex [OF assms(2)] obtain e where
    e: "np_argmin (np_abs (np_sub Lons East)) = Inr e" "nearest_first Lons East e"
    by blast
  have "IdxNorth Lats North = Inr (int n + 1)" "IdxSouth Lats South = Inr (int s)"
       "IdxWest Lons West = Inr (int w)" "IdxEast Lons East = Inr (int e + 1)"
    using n(1) s(1) w(1) e(1) by (simp_all add: IdxNorth_def IdxSouth_def IdxWest_def IdxEast_def)
  with n(2) s(2) w(2) e(2) show ?thesis by blast
qed

theorem C2_bounding_box_resolver_witness:
  "[0, 1, 2, 3 :: real] \<noteq> [] \<and> [10, 11, 12 :: real] \<noteq> [] \<and>
   (\<exists>n s w e.
      IdxNorth [0, 1, 2, 3] (5 / 2) = Inr (int n + 1) \<and> nearest_first [0, 1, 2, 3] (5 / 2) n \<and>
      IdxSouth [0, 1, 2, 3] (1 / 4) = Inr (int s) \<and> nearest_first [0, 1, 2, 3] (1 / 4) s \<and>
      IdxWest [10, 11, 12] 8 = Inr (int w) \<and> nearest_first [10, 11, 12] 8 w \<and>
      IdxEast [10, 11, 12] 20 = Inr (int e + 1) \<and> nearest_first [10, 11, 12] 20 e) \<and>
   IdxNorth [0, 1, 2, 3] (5 / 2) = Inr 3 \<and> IdxSouth [0, 1, 2, 3] (1 / 4) = Inr 0 \<and>
   IdxWest [10, 11, 12] 8 = Inr 0 \<and> IdxEast [10, 11, 12] 20 = Inr 3"
proof -
  have a: "[0, 1, 2, 3 :: real] \<noteq> []" and b: "[10, 11, 12 :: real] \<noteq> []"
    by simp_all
  have v: "IdxNorth [0, 1, 2, 3] (5 / 2) = Inr 3" "IdxSouth [0, 1, 2, 3] (1 / 4) = Inr 0"
          "IdxWest [10, 11, 12] 8 = Inr 0" "IdxEast [10, 11, 12] 20 = Inr 3"
    by (simp_all add: IdxNorth_def IdxSouth_def IdxWest_def IdxEast_def np_argmin_def
          np_abs_def np_sub_def)
  from C2_bounding_box_resolver [OF a b, of "5 / 2" "1 / 4" 8 20] a b v
  show ?thesis by blast
qed

section \<open>Spatial clipper\<close>

lemma slice_bound_nonneg: "0 \<le> i \<Longrightarrow> slice_bound i n = min (nat i) n"
  by (simp add: slice_bound_def)

lemma slice_bound_le: "slice_bound i n \<le> n"
  by (auto simp: slice_bound_def max_def)

lemma length_py_slice:
  "length (py_slice a b xs) = slice_bound b (length xs) - slice_bound a (length xs)"
proof -
  have "slice_bound a (length xs) \<le> length xs" "slice_bound b (length xs) \<le> length xs"
    by (rule slice_bound_le)+
  then show ?thesis
    by (simp add: py_slice_def Let_def)
qed

lemma nth_py_slice:
  assumes "k < slice_bound b (length xs) - slice_bound a (length xs)"
  shows "py_slice a b xs ! k = xs ! (slice_bound a (length xs) + k)"
proof -
  have "slice_bound b (length xs) \<le> length xs"
    by (rule slice_bound_le)
  with assms have "slice_bound a (length xs) + k < length xs"
    by linarith
  with assms show ?thesis
    by (simp add: py_slice_def Let_def)
qed

lemma clipper_output:
  "WFDE5NetCDFClipper fs Path FileRaw iWest iEast iNorth iSouth FileClipped FileClipped =
     Some \<lparr>time = time FileRaw, lon = py_slice iWest iEast (lon FileRaw),
           lat = py_slice iSouth iNorth (lat FileRaw),
           Rainf = nc_write3 (slice3 iSouth iNorth iWest iEast (Rainf FileRaw))\<rparr>"
  by (simp add: WFDE5NetCDFClipper_def)

lemma clipper_frame:
  "p \<noteq> FileClipped \<Longrightarrow>
   WFDE5NetCDFClipper fs Path FileRaw iWest iEast iNorth iSouth FileClipped p = fs p"
  by (simp add: WFDE5NetCDFClipper_def)

lemma slice3_shape:
  "shape3 a = (nT, nLat, nLon) \<Longrightarrow>
   shape3 (slice3 s n w e a) =
     (nT, slice_bound n nLat - slice_bound s nLat, slice_bound e nLon - slice_bound w nLon)"
  by (simp add: slice3_def Let_def)

lemma slice3_at:
  "shape3 a = (nT, nLat, nLon) \<Longrightarrow>
   at3 (slice3 s n w e a) t i j = at3 a t (slice_bound s nLat + i) (slice_bound w nLon + j)"
  by (simp add: slice3_def Let_def)

lemma slice3_missing: "missing3 (slice3 s n w e a) = missing3 a"
  by (simp add: slice3_def Let_def split: prod.split)

lemma nc_write3_shape:
  "shape3 a = (nT, nLat, nLon) \<Longrightarrow>
   shape3 (nc_write3 a) = (if nLat = 0 \<or> nLon = 0 then 0 else nT, nLat, nLon)"
  by (simp add: nc_write3_def)

lemma nc_write3_at:
  "at3 (nc_write3 a) t i j = (if missing3 a (at3 a t i j) then default_fill else at3 a t i j)"
  by (simp add: nc_write3_def split: prod.split)

lemma example_lens:
  "length (lon example_dataset) = 3" "length (lat example_dataset) = 2"
  "time example_dataset = [0, 1]"
  by (simp_all add: example_dataset_def)

lemma example_nodata_lens:
  "length (lon example_nodata) = 3" "length (lat example_nodata) = 2"
  "time example_nodata = [0, 1]"
  by (simp_all add: example_nodata_def)

lemma example_shapes:
  "shape3 (Rainf example_dataset) = (2, 2, 3)" "shape3 (Rainf example_nodata) = (2, 2, 3)"
  by (simp_all add: example_dataset_def example_nodata_def)

lemma default_fill_not_nodata: "default_fill \<noteq> 10 ^ 20"
  by (simp add: default_fill_def)

text \<open>
  C4, as the specification words it, fails in two ways. A cell that the source marks
  as no-data is read masked and written as the default fill value, so the written
  variable differs from the source slice there. And for an empty window (here south =
  north) nothing of the variable is written, so its time extent stays 0: the source
  slice has shape (2, 0, 3), the written variable (0, 0, 3).
\<close>

theorem C4_clipper_variable_counterexample:
  "wf_dataset example_nodata \<and>
   at3 (slice3 0 2 0 3 (Rainf example_nodata)) 0 0 1 = 10 ^ 20 \<and>
   (\<exists>out. WFDE5NetCDFClipper Map.empty ''clipped/'' example_nodata 0 3 2 0 ''a_Clip.nc''
            ''a_Clip.nc'' = Some out \<and>
          at3 (Rainf out) 0 0 1 = default_fill \<and>
          at3 (Rainf out) 0 0 1 \<noteq> at3 (slice3 0 2 0 3 (Rainf example_nodata)) 0 0 1) \<and>
   wf_dataset example_dataset \<and>
   shape3 (slice3 1 1 0 3 (Rainf example_dataset)) = (2, 0, 3) \<and>
   (\<exists>out. WFDE5NetCDFClipper Map.empty ''clipped/'' example_dataset 0 3 1 1 ''b_Clip.nc''
            ''b_Clip.nc'' = Some out \<and>
          shape3 (Rainf out) = (0, 0, 3) \<and>
          shape3 (Rainf out) \<noteq> shape3 (slice3 1 1 0 3 (Rainf example_dataset)))"
proof -
  have wf1: "wf_dataset example_nodata" and wf2: "wf_dataset example_dataset"
    by (simp_all add: wf_dataset_def example_nodata_def example_dataset_def)
  have a: "at3 (slice3 0 2 0 3 (Rainf example_nodata)) 0 0 1 = 10 ^ 20"
    by (simp add: slice3_at [OF example_shapes(2)] slice_bound_def) (simp add: example_nodata_def)
  have m: "missing3 (slice3 0 2 0 3 (Rainf example_nodata)) (10 ^ 20)"
    by (simp add: slice3_missing) (simp add: example_nodata_def)
  have b: "at3 (nc_write3 (slice3 0 2 0 3 (Rainf example_nodata))) 0 0 1 = default_fill"
    by (simp only: nc_write3_at a m if_True)
  have ne: "at3 (nc_write3 (slice3 0 2 0 3 (Rainf example_nodata))) 0 0 1
              \<noteq> at3 (slice3 0 2 0 3 (Rainf example_nodata)) 0 0 1"
    unfolding a b by (rule default_fill_not_nodata)
  have c: "shape3 (slice3 1 1 0 3 (Rainf example_dataset)) = (2, 0, 3)"
    by (simp add: slice3_shape [OF example_shapes(1)] slice_bound_def)
  have d: "shape3 (nc_write3 (slice3 1 1 0 3 (Rainf example_dataset))) = (0, 0, 3)"
    by (simp add: nc_write3_shape [OF c])
  have 1: "\<exists>out. WFDE5NetCDFClipper Map.empty ''clipped/'' example_nodata 0 3 2 0 ''a_Clip.nc''
            ''a_Clip.nc'' = Some out \<and>
          at3 (Rainf out) 0 0 1 = default_fill \<and>
          at3 (Rainf out) 0 0 1 \<noteq> at3 (slice3 0 2 0 3 (Rainf example_nodata)) 0 0 1"
    using b ne by (simp add: clipper_output)
  have 2: "\<exists>out. WFDE5NetCDFClipper Map.empty ''clipped/'' example_dataset 0 3 1 1 ''b_Clip.nc''
            ''b_Clip.nc'' = Some out \<and>
          shape3 (Rainf out) = (0, 0, 3) \<and>
          shape3 (Rainf out) \<noteq> shape3 (slice3 1 1 0 3 (Rainf example_dataset))"
    using c d by (simp add: clipper_output)
  from wf1 a 1 wf2 c 2 show ?thesis
    by (intro conjI)
qed

text \<open>
  C4, amended. For a well-formed source dataset and a window whose bounds lie within
  the axes, the clipper writes a dataset whose time coordinate is the source's and
  whose longitude and latitude are the source slices [west:east] and [south:north],
  element by element. The written variable has the latitude and longitude extents of
  the source slice [:, south:north, west:east] and holds the source's number at every
  cell, except that a cell the source counts as missing holds the default fill value;
  its time extent is the source's for a non-empty window and 0 for an empty one. For a
  non-empty window the written dataset is again well-formed. Every other file is as
  before; in particular a file that holds the source still holds it.
\<close>

theorem C4_clipper_slices:
  assumes wf: "wf_dataset FileRaw"
    and w: "0 \<le> iWest" "iWest \<le> int (length (lon FileRaw))"
    and e: "0 \<le> iEast" "iEast \<le> int (length (lon FileRaw))"
    and s: "0 \<le> iSouth" "iSouth \<le> int (length (lat FileRaw))"
    and n: "0 \<le> iNorth" "iNorth \<le> int (length (lat FileRaw))"
  shows "\<exists>out.
           WFDE5NetCDFClipper fs Path FileRaw iWest iEast iNorth iSouth FileClipped FileClipped
             = Some out \<and>
           time out = time FileRaw \<and>
           length (lon out) = nat iEast - nat iWest \<and>
           (\<forall>k < nat iEast - nat iWest. lon out ! k = lon FileRaw ! (nat iWest + k)) \<and>
           length (lat out) = nat iNorth - nat iSouth \<and>
           (\<forall>k < nat iNorth - nat iSouth. lat out ! k = lat FileRaw ! (nat iSouth + k)) \<and>
           shape3 (Rainf out) =
             (if nat iNorth - nat iSouth = 0 \<or> nat iEast - nat iWest = 0 then 0
              else length (time FileRaw),
              nat iNorth - nat iSouth, nat iEast - nat iWest) \<and>
           (\<forall>t i j. at3 (Rainf out) t i j =
              (if missing3 (Rainf FileRaw) (at3 (Rainf FileRaw) t (nat iSouth + i) (nat iWest + j))
               then default_fill
               else at3 (Rainf FileRaw) t (nat iSouth + i) (nat iWest + j))) \<and>
           (iSouth < iNorth \<and> iWest < iEast \<longrightarrow> wf_dataset out) \<and>
           (\<forall>p. p \<noteq> FileClipped \<longrightarrow>
              WFDE5NetCDFClipper fs Path FileRaw iWest iEast iNorth iSouth FileClipped p = fs p) \<and>
           (\<forall>p. p \<noteq> FileClipped \<and> fs p = Some FileRaw \<longrightarrow>
              WFDE5NetCDFClipper fs Path FileRaw iWest iEast iNorth iSouth FileClipped p
                = Some FileRaw)"
proof -
  let ?sl = "slice3 iSouth iNorth iWest iEast (Rainf FileRaw)"
  let ?out = "\<lparr>time = time FileRaw, lon = py_slice iWest iEast (lon FileRaw),
               lat = py_slice iSouth iNorth (lat FileRaw),
               Rainf = nc_write3 ?sl\<rparr>"
  have sh: "shape3 (Rainf FileRaw) = (length (time FileRaw), length (lat FileRaw), length (lon FileRaw))"
    using wf by (simp add: wf_dataset_def)
  have bw: "slice_bound iWest (length (lon FileRaw)) = nat iWest"
    using w by (simp add: slice_bound_nonneg)
  have be: "slice_bound iEast (length (lon FileRaw)) = nat iEast"
    using e by (simp add: slice_bound_nonneg)
  have bs: "slice_bound iSouth (length (lat FileRaw)) = nat iSouth"
    using s by (simp add: slice_bound_nonneg)
  have bn: "slice_bound iNorth (length (lat FileRaw)) = nat iNorth"
    using n by (simp add: slice_bound_nonneg)
  have shs: "shape3 ?sl = (length (time FileRaw), nat iNorth - nat iSouth, nat iEast - nat iWest)"
    by (simp add: slice3_shape [OF sh] bw be bs bn)
  have 1: "WFDE5NetCDFClipper fs Path FileRaw iWest iEast iNorth iSouth FileClipped FileClipped
             = Some ?out"
    by (rule clipper_output)
  have 0: "time ?out = time FileRaw"
    by simp
  have 2: "length (lon ?out) = nat iEast - nat iWest"
    by (simp add: length_py_slice bw be)
  have 3: "\<forall>k < nat iEast - nat iWest. lon ?out ! k = lon FileRaw ! (nat iWest + k)"
    by (simp add: nth_py_slice bw be)
  have 4: "length (lat ?out) = nat iNorth - nat iSouth"
    by (simp add: length_py_slice bs bn)
  have 5: "\<forall>k < nat iNorth - nat iSouth. lat ?out ! k = lat FileRaw ! (nat iSouth + k)"
    by (simp add: nth_py_slice bs bn)
  have 6: "shape3 (Rainf ?out) =
             (if nat iNorth - nat iSouth = 0 \<or> nat iEast - nat iWest = 0 then 0
              else length (time FileRaw),
              nat iNorth - nat iSouth, nat iEast - nat iWest)"
    using nc_write3_shape [OF shs] by simp
  have 7: "\<forall>t i j. at3 (Rainf ?out) t i j =
              (if missing3 (Rainf FileRaw) (at3 (Rainf FileRaw) t (nat iSouth + i) (nat iWest + j))
               then default_fill
               else at3 (Rainf FileRaw) t (nat iSouth + i) (nat iWest + j))"
    by (simp add: nc_write3_at slice3_missing slice3_at [OF sh] bw bs)
  have 8: "iSouth < iNorth \<and> iWest < iEast \<longrightarrow> wf_dataset ?out"
  proof (intro impI, elim conjE)
    assume "iSouth < iNorth" "iWest < iEast"
    with s(1) w(1) have "nat iNorth - nat iSouth \<noteq> 0" "nat iEast - nat iWest \<noteq> 0"
      by linarith+
    then have "shape3 (Rainf ?out)
                 = (length (time FileRaw), nat iNorth - nat iSouth, nat iEast - nat iWest)"
      by (simp only: 6 if_False simp_thms)
    with 2 4 show "wf_dataset ?out"
      by (simp add: wf_dataset_def)
  qed
  have 9: "\<forall>p. p \<noteq> FileClipped \<longrightarrow>
             WFDE5NetCDFClipper fs Path FileRaw iWest iEast iNorth iSouth FileClipped p = fs p"
    by (simp add: clipper_frame)
  have 10: "\<forall>p. p \<noteq> FileClipped \<and> fs p = Some FileRaw \<longrightarrow>
              WFDE5NetCDFClipper fs Path FileRaw iWest iEast iNorth iSouth FileClipped p
                = Some FileRaw"
    by (simp add: clipper_frame)
  show ?thesis
    by (rule exI [of _ ?out]) (intro conjI 1 0 2 3 4 5 6 7 8 9 10)
qed

theorem C4_clipper_slices_witness:
  "wf_dataset example_nodata \<and>
   (\<exists>out.
      WFDE5NetCDFClipper [''raw.nc'' \<mapsto> example_nodata] ''clipped/'' example_nodata 1 3 2 0
        ''a_Clip.nc'' ''a_Clip.nc'' = Some out \<and>
      time out = [0, 1] \<and> length (lon out) = 2 \<and> lon out ! 0 = 11 \<and> lon out ! 1 = 12 \<and>
      length (lat out) = 2 \<and> shape3 (Rainf out) = (2, 2, 2) \<and>
      at3 (Rainf out) 1 1 0 = 111 \<and> at3 (Rainf out) 0 0 0 = default_fill \<and> wf_dataset out) \<and>
   WFDE5NetCDFClipper [''raw.nc'' \<mapsto> example_nodata] ''clipped/'' example_nodata 1 3 2 0
     ''a_Clip.nc'' ''raw.nc'' = Some example_nodata"
proof -
  let ?fs = "[''raw.nc'' \<mapsto> example_nodata]"
  have wf: "wf_dataset example_nodata"
    by (simp add: wf_dataset_def example_nodata_def)
  have nn: "(0::int) \<le> 1" "(0::int) \<le> 3" "(0::int) \<le> 0" "(0::int) \<le> 2"
    by simp_all
  have bounds:
    "(1::int) \<le> int (length (lon example_nodata))" "(3::int) \<le> int (length (lon example_nodata))"
    "(0::int) \<le> int (length (lat example_nodata))" "(2::int) \<le> int (length (lat example_nodata))"
    by (simp_all add: example_nodata_lens)
  note inst = C4_clipper_slices [OF wf nn(1) bounds(1) nn(2) bounds(2) nn(3) bounds(3) nn(4) bounds(4),
      of ?fs "''clipped/''" "''a_Clip.nc''"]
  from inst obtain out where out:
    "WFDE5NetCDFClipper ?fs ''clipped/'' example_nodata 1 3 2 0 ''a_Clip.nc'' ''a_Clip.nc''
       = Some out"
    "time out = time example_nodata"
    "length (lon out) = nat 3 - nat 1"
    "\<forall>k < nat 3 - nat 1. lon out ! k = lon example_nodata ! (nat 1 + k)"
    "length (lat out) = nat 2 - nat 0"
    "shape3 (Rainf out) =
       (if nat 2 - nat 0 = 0 \<or> nat 3 - nat 1 = 0 then 0 else length (time example_nodata),
        nat 2 - nat 0, nat 3 - nat 1)"
    "\<forall>t i j. at3 (Rainf out) t i j =
       (if missing3 (Rainf example_nodata) (at3 (Rainf example_nodata) t (nat 0 + i) (nat 1 + j))
        then default_fill
        else at3 (Rainf example_nodata) t (nat 0 + i) (nat 1 + j))"
    "(0::int) < 2 \<and> (1::int) < 3 \<longrightarrow> wf_dataset out"
    "\<forall>p. p \<noteq> ''a_Clip.nc'' \<and> ?fs p = Some example_nodata \<longrightarrow>
       WFDE5NetCDFClipper ?fs ''clipped/'' example_nodata 1 3 2 0 ''a_Clip.nc'' p
         = Some example_nodata"
    by (elim exE conjE) (rule that; assumption)
  have a: "time out = [0, 1]" "shape3 (Rainf out) = (2, 2, 2)" "length (lon out) = 2"
    "length (lat out) = 2" "wf_dataset out"
    using out(2,3,5,6,8) by (simp_all add: example_nodata_lens)
  have b: "lon out ! 0 = 11" "lon out ! 1 = 12"
    using out(4) by (simp_all add: example_nodata_def)
  have c: "at3 (Rainf out) 1 1 0 = 111" "at3 (Rainf out) 0 0 0 = default_fill"
    using out(7) by (simp_all add: example_nodata_def)
  have d:
    "WFDE5NetCDFClipper ?fs ''clipped/'' example_nodata 1 3 2 0 ''a_Clip.nc'' ''raw.nc''
       = Some example_nodata"
    using out(9) by simp
  show ?thesis
    using wf out(1) a b c d by (intro conjI exI [of _ out]) simp_all
qed

text \<open>
  C7, as the specification words it, fails: the clipper has no bounds check, and a
  slice past the end of an axis is clamped. With the east bound at 7 on a longitude
  axis of length 3 the clipper writes a dataset.
\<close>

theorem C7_window_exceeds_counterexample:
  "window_exceeds example_dataset 1 7 2 0 \<and>
   WFDE5NetCDFClipper Map.empty ''clipped/'' example_dataset 1 7 2 0 ''a_Clip.nc'' ''a_Clip.nc''
     = Some \<lparr>time = [0, 1], lon = [11, 12], lat = [1, 2],
             Rainf = nc_write3 (slice3 0 2 1 7 (Rainf example_dataset))\<rparr>"
proof -
  have "window_exceeds example_dataset 1 7 2 0"
    by (simp add: window_exceeds_def example_lens)
  moreover have "py_slice 1 7 (lon example_dataset) = [11, 12]"
    by (simp add: example_dataset_def py_slice_def slice_bound_def)
  moreover have "py_slice 0 2 (lat example_dataset) = [1, 2]"
    by (simp add: example_dataset_def py_slice_def slice_bound_def)
  ultimately show ?thesis
    by (simp add: clipper_output example_lens)
qed

text \<open>
  C7, amended. For every source dataset and every window with non-negative bounds,
  also when a bound lies past the end of its axis, the clipper does not fail: it
  writes a dataset whose time coordinate is the source's and whose longitude and
  latitude are the source slices clamped to the axis lengths.
\<close>

theorem C7_clipper_clamps:
  assumes "0 \<le> iWest" "0 \<le> iEast" "0 \<le> iSouth" "0 \<le> iNorth"
  shows "\<exists>out.
           WFDE5NetCDFClipper fs Path FileRaw iWest iEast iNorth iSouth FileClipped FileClipped
             = Some out \<and>
           time out = time FileRaw \<and>
           length (lon out) =
             min (nat iEast) (length (lon FileRaw)) - min (nat iWest) (length (lon FileRaw)) \<and>
           (\<forall>k < length (lon out).
              lon out ! k = lon FileRaw ! (min (nat iWest) (length (lon FileRaw)) + k)) \<and>
           length (lat out) =
             min (nat iNorth) (length (lat FileRaw)) - min (nat iSouth) (length (lat FileRaw)) \<and>
           (\<forall>k < length (lat out).
              lat out ! k = lat FileRaw ! (min (nat iSouth) (length (lat FileRaw)) + k))"
proof -
  let ?out = "\<lparr>time = time FileRaw, lon = py_slice iWest iEast (lon FileRaw),
               lat = py_slice iSouth iNorth (lat FileRaw),
               Rainf = nc_write3 (slice3 iSouth iNorth iWest iEast (Rainf FileRaw))\<rparr>"
  have bw: "slice_bound iWest (length (lon FileRaw)) = min (nat iWest) (length (lon FileRaw))"
    and be: "slice_bound iEast (length (lon FileRaw)) = min (nat iEast) (length (lon FileRaw))"
    and bs: "slice_bound iSouth (length (lat FileRaw)) = min (nat iSouth) (length (lat FileRaw))"
    and bn: "slice_bound iNorth (length (lat FileRaw)) = min (nat iNorth) (length (lat FileRaw))"
    using assms by (simp_all only: slice_bound_nonneg)
  have 1: "WFDE5NetCDFClipper fs Path FileRaw iWest iEast iNorth iSouth FileClipped FileClipped
             = Some ?out"
    by (rule clipper_output)
  have 2: "length (lon ?out) =
             min (nat iEast) (length (lon FileRaw)) - min (nat iWest) (length (lon FileRaw))"
    using length_py_slice [of iWest iEast "lon FileRaw"] by (simp only: bw be dataset.simps)
  have 3: "\<forall>k < length (lon ?out).
             lon ?out ! k = lon FileRaw ! (min (nat iWest) (length (lon FileRaw)) + k)"
  proof (intro allI impI)
    fix k
    assume "k < length (lon ?out)"
    then have "k < slice_bound iEast (length (lon FileRaw)) - slice_bound iWest (length (lon FileRaw))"
      by (simp only: dataset.simps length_py_slice)
    from nth_py_slice [OF this]
    show "lon ?out ! k = lon FileRaw ! (min (nat iWest) (length (lon FileRaw)) + k)"
      by (simp only: bw dataset.simps)
  qed
  have 4: "length (lat ?out) =
             min (nat iNorth) (length (lat FileRaw)) - min (nat iSouth) (length (lat FileRaw))"
    using length_py_slice [of iSouth iNorth "lat FileRaw"] by (simp only: bs bn dataset.simps)
  have 5: "\<forall>k < length (lat ?out).
             lat ?out ! k = lat FileRaw ! (min (nat iSouth) (length (lat FileRaw)) + k)"
  proof (intro allI impI)
    fix k
    assume "k < length (lat ?out)"
    then have "k < slice_bound iNorth (length (lat FileRaw)) - slice_bound iSouth (length (lat FileRaw))"
      by (simp only: dataset.simps length_py_slice)
    from nth_py_slice [OF this]
    show "lat ?out ! k = lat FileRaw ! (min (nat iSouth) (length (lat FileRaw)) + k)"
      by (simp only: bs dataset.simps)
  qed
  have 0: "time ?out = time FileRaw"
    by simp
  show ?thesis
    by (rule exI [of _ ?out]) (intro conjI 0 1 2 3 4 5)
qed

theorem C7_clipper_clamps_witness:
  "(0::int) \<le> 1 \<and> (0::int) \<le> 7 \<and> (0::int) \<le> 0 \<and> (0::int) \<le> 2 \<and>
   window_exceeds example_dataset 1 7 2 0 \<and>
   (\<exists>out.
      WFDE5NetCDFClipper Map.empty ''clipped/'' example_dataset 1 7 2 0 ''b_Clip.nc'' ''b_Clip.nc''
        = Some out \<and>
      length (lon out) = 2 \<and> length (lat out) = 2 \<and> lon out ! 1 = 12)"
proof -
  have ex: "window_exceeds example_dataset 1 7 2 0"
    by (simp add: window_exceeds_def example_lens)
  have nn: "(0::int) \<le> 1" "(0::int) \<le> 7" "(0::int) \<le> 0" "(0::int) \<le> 2"
    by simp_all
  note inst = C7_clipper_clamps [OF nn, of Map.empty "''clipped/''" example_dataset "''b_Clip.nc''",
      unfolded example_lens]
  from inst obtain out where out:
    "WFDE5NetCDFClipper Map.empty ''clipped/'' example_dataset 1 7 2 0 ''b_Clip.nc'' ''b_Clip.nc''
       = Some out"
    "length (lon out) = min (nat 7) 3 - min (nat 1) 3"
    "\<forall>k < length (lon out). lon out ! k = lon example_dataset ! (min (nat 1) 3 + k)"
    "length (lat out) = min (nat 2) 2 - min (nat 0) 2"
    by (elim exE conjE) (rule that; assumption)
  have a: "length (lon out) = 2" "length (lat out) = 2"
    using out(2,4) by simp_all
  have b: "lon out ! 1 = 12"
    using out(3) a(1) by (simp add: example_dataset_def)
  show ?thesis
    using ex out(1) a b by (intro conjI exI [of _ out]) simp_all
qed


section \<open>Grid-to-table flattener\<close>

lemma cell_series_ok:
  assumes "shape3 a = (nT, nLat, nLon)" "Lat < nLat" "Lon < nLon"
  shows "cell_series a Lat Lon = Inr (map (\<lambda>t. at3 a t Lat Lon) [0..<nT])"
  using assms by (simp add: cell_series_def)

lemma converted_series_ok:
  assumes "shape3 a = (nT, nLat, nLon)" "Lat < nLat" "Lon < nLon"
  shows "converted_series a uc Lat Lon = Inr (expected_series a uc Lat Lon)"
  using assms by (simp add: converted_series_def cell_series_ok [OF assms] expected_series_def comp_def)

lemma lon_loop_ok:
  assumes "shape3 a = (nT, nLat, nLon)" "Lat < nLat" "\<forall>Lon \<in> set Lons. Lon < nLon"
  shows "lon_loop a uc Lat Lons acc = Inr (acc @ map (expected_series a uc Lat) Lons)"
  using assms(3)
proof (induction Lons arbitrary: acc)
  case Nil
  show ?case by simp
next
  case (Cons Lon Lons)
  from Cons.prems have "Lon < nLon" by simp
  from converted_series_ok [OF assms(1,2) this]
  have "lon_loop a uc Lat (Lon # Lons) acc
          = lon_loop a uc Lat Lons (acc @ [expected_series a uc Lat Lon])"
    by simp
  also have "\<dots> = Inr ((acc @ [expected_series a uc Lat Lon]) @ map (expected_series a uc Lat) Lons)"
    using Cons.prems by (intro Cons.IH) simp
  finally show ?case by simp
qed

lemma lat_loop_ok:
  assumes "shape3 a = (nT, nLat, nLon)" "NCols \<le> nLon" "\<forall>Lat \<in> set Lats. Lat < nLat"
  shows "lat_loop a uc NCols Lats acc
           = Inr (acc @ concat (map (\<lambda>Lat. map (expected_series a uc Lat) [0..<NCols]) Lats))"
  using assms(3)
proof (induction Lats arbitrary: acc)
  case Nil
  show ?case by simp
next
  case (Cons Lat Lats)
  from Cons.prems have lt: "Lat < nLat" by simp
  have inner: "lon_loop a uc Lat [0..<NCols] acc
                 = Inr (acc @ map (expected_series a uc Lat) [0..<NCols])"
    using assms(2) by (intro lon_loop_ok [OF assms(1) lt]) auto
  have "lat_loop a uc NCols (Lat # Lats) acc
          = lat_loop a uc NCols Lats (acc @ map (expected_series a uc Lat) [0..<NCols])"
    by (simp add: inner)
  also have "\<dots> = Inr ((acc @ map (expected_series a uc Lat) [0..<NCols])
                       @ concat (map (\<lambda>Lat. map (expected_series a uc Lat) [0..<NCols]) Lats))"
    using Cons.prems by (intro Cons.IH) simp
  finally show ?case by simp
qed

lemma length_grid_cells:
  "length (concat (map (\<lambda>i. map (f i) [0..<m]) [0..<n])) = n * m"
  by (induction n) simp_all

lemma nth_grid_cells:
  assumes "i < n" "j < m"
  shows "concat (map (\<lambda>i. map (f i) [0..<m]) [0..<n]) ! (i * m + j) = f i j"
  using assms(1)
proof (induction n)
  case 0
  then show ?case by simp
next
  case (Suc n)
  show ?case
  proof (cases "i < n")
    case True
    then have "i * m + j < n * m"
    proof -
      from True have "Suc i \<le> n" by simp
      then have "Suc i * m \<le> n * m" by (rule mult_le_mono1)
      with assms(2) show ?thesis by simp
    qed
    with True Suc.IH show ?thesis
      by (simp add: nth_append length_grid_cells)
  next
    case False
    with Suc.prems have "i = n" by simp
    with assms(2) show ?thesis
      by (simp add: nth_append length_grid_cells)
  qed
qed

lemma rint_close: "\<bar>of_int (rint y) - y\<bar> \<le> 1 / 2"
proof -
  have lo: "of_int \<lfloor>y\<rfloor> \<le> y" and hi: "y < of_int \<lfloor>y\<rfloor> + 1"
    by linarith+
  consider "y - of_int \<lfloor>y\<rfloor> < 1 / 2" | "y - of_int \<lfloor>y\<rfloor> > 1 / 2"
    | "y - of_int \<lfloor>y\<rfloor> = 1 / 2"
    by linarith
  then show ?thesis
  proof cases
    case 1
    then have "rint y = \<lfloor>y\<rfloor>"
      by (simp add: rint_def Let_def)
    with 1 lo show ?thesis by simp
  next
    case 2
    then have "rint y = \<lfloor>y\<rfloor> + 1"
      by (simp add: rint_def Let_def)
    with 2 hi show ?thesis by simp
  next
    case 3
    then have "rint y = \<lfloor>y\<rfloor> \<or> rint y = \<lfloor>y\<rfloor> + 1"
      by (simp add: rint_def Let_def)
    with 3 show ?thesis by auto
  qed
qed

lemma np_round1_close: "\<bar>np_round1 x - x\<bar> \<le> 1 / 20"
proof -
  have "\<bar>of_int (rint (x * 10)) - x * 10\<bar> \<le> 1 / 2"
    by (rule rint_close)
  then show ?thesis
    by (simp add: np_round1_def abs_if field_simps split: if_splits)
qed

lemma np_round1_decimal: "\<exists>k :: int. np_round1 x = of_int k / 10"
  by (auto simp: np_round1_def)

lemma rint_of_int: "rint (of_int k) = k"
  by (simp add: rint_def)

lemma np_round1_example: "np_round1 (10 * (36 / 10)) = 36"
proof -
  have "rint (10 * (36 / 10) * 10) = rint (of_int 360)"
    by simp
  then show ?thesis
    by (simp only: np_round1_def rint_of_int)
qed

lemma loops_grid_cells:
  assumes "wf_dataset Data"
  shows "lat_loop (Rainf Data) uc (length (lon Data)) [0..<length (lat Data)] []
           = Inr (grid_cells Data uc)"
proof -
  have sh: "shape3 (Rainf Data) = (length (time Data), length (lat Data), length (lon Data))"
    using assms by (simp add: wf_dataset_def)
  have "lat_loop (Rainf Data) uc (length (lon Data)) [0..<length (lat Data)] []
          = Inr ([] @ concat (map (\<lambda>Lat. map (expected_series (Rainf Data) uc Lat)
                                              [0..<length (lon Data)])
                                   [0..<length (lat Data)]))"
    by (rule lat_loop_ok [OF sh]) simp_all
  then show ?thesis
    by (simp add: grid_cells_def)
qed

lemma length_grid: "length (grid_cells Data uc) = length (lat Data) * length (lon Data)"
  by (simp add: grid_cells_def length_grid_cells)

lemma nth_grid:
  assumes "Lat < length (lat Data)" "Lon < length (lon Data)"
  shows "grid_cells Data uc ! (Lat * length (lon Data) + Lon)
           = expected_series (Rainf Data) uc Lat Lon"
  using nth_grid_cells [OF assms, of "expected_series (Rainf Data) uc"]
  by (simp add: grid_cells_def)

lemma length_expected_series:
  "wf_dataset Data \<Longrightarrow> length (expected_series (Rainf Data) uc Lat Lon) = length (time Data)"
  by (simp add: expected_series_def wf_dataset_def)

lemma grid_series_length:
  assumes "wf_dataset Data" "c \<in> set (grid_cells Data uc)"
  shows "length c = length (time Data)"
  using assms by (auto simp: grid_cells_def length_expected_series)

lemma pd_DataFrame_ncols:
  assumes "wf_dataset Data"
    and "0 < length (lat Data) * length (lon Data)"
  shows "ncols (pd_DataFrame (grid_cells Data uc)) = length (time Data)"
proof (cases "grid_cells Data uc")
  case Nil
  then have "length (lat Data) * length (lon Data) = 0"
    using length_grid [of Data uc] by simp
  with assms(2) show ?thesis
    by simp
next
  case (Cons c cs)
  then have "c \<in> set (grid_cells Data uc)" by simp
  from grid_series_length [OF assms(1) this] Cons show ?thesis
    by (simp add: pd_DataFrame_def)
qed

lemma zip_no_cells: "zip xs (map (\<lambda>t. []) [0..<length xs]) = map (\<lambda>l. (l, [])) xs"
  by (rule nth_equalityI) simp_all

lemma transposed_rows:
  "rows (transpose_df (pd_DataFrame data))
     = map (\<lambda>j. (int j, map (\<lambda>c. c ! j) data)) [0..<ncols (pd_DataFrame data)]"
proof -
  have "map (\<lambda>r. snd r ! j) (zip (map int [0..<length data]) data) = map (\<lambda>c. c ! j) data" for j
  proof -
    have "map (\<lambda>r. snd r ! j) (zip (map int [0..<length data]) data)
            = map (\<lambda>c. c ! j) (map snd (zip (map int [0..<length data]) data))"
      by (simp only: map_map o_def)
    also have "map snd (zip (map int [0..<length data]) data) = data"
      by (rule map_snd_zip) simp
    finally show ?thesis .
  qed
  then show ?thesis
    by (simp add: transpose_df_def pd_DataFrame_def)
qed

lemma flattener_table:
  assumes wf: "wf_dataset Data"
  shows "NetCDFToSHETRAN csvs Data Path File uc =
           Inr (\<lparr>ncols = length (lat Data) * length (lon Data),
                 rows = zip (time Data)
                          (map (\<lambda>t. map (\<lambda>c. c ! t) (grid_cells Data uc))
                               [0..<length (time Data)])\<rparr>,
                csvs(Path @ File \<mapsto>
                  \<lparr>ncols = length (lat Data) * length (lon Data),
                   rows = zip (time Data)
                            (map (\<lambda>t. map (\<lambda>c. c ! t) (grid_cells Data uc))
                                 [0..<length (time Data)])\<rparr>))"
proof -
  let ?T = "transpose_df (pd_DataFrame (grid_cells Data uc))"
  let ?df = "\<lparr>ncols = length (lat Data) * length (lon Data),
              rows = zip (time Data)
                       (map (\<lambda>t. map (\<lambda>c. c ! t) (grid_cells Data uc))
                            [0..<length (time Data)])\<rparr>"
  have n: "ncols ?T = length (lat Data) * length (lon Data)"
    by (simp add: transpose_df_def nrows_def pd_DataFrame_def length_grid)
  have "set_index ?T (time Data) = Inr ?df"
  proof (cases "length (lat Data) * length (lon Data) = 0")
    case True
    have "length (grid_cells Data uc) = 0"
      by (simp only: length_grid True)
    then have cells: "grid_cells Data uc = []"
      by simp
    have "set_index ?T (time Data)
            = Inr \<lparr>ncols = 0, rows = map (\<lambda>l. (l, [])) (time Data)\<rparr>"
      by (simp add: set_index_def transpose_df_def nrows_def pd_DataFrame_def cells)
    also have "map (\<lambda>l. (l, [])) (time Data)
                 = zip (time Data) (map (\<lambda>t. []) [0..<length (time Data)])"
      by (rule zip_no_cells [symmetric])
    finally show ?thesis
      using True by (simp add: cells)
  next
    case False
    then have ne: "0 < length (lat Data) * length (lon Data)"
      by simp
    have nc: "ncols (pd_DataFrame (grid_cells Data uc)) = length (time Data)"
      by (rule pd_DataFrame_ncols [OF wf ne])
    have r: "rows ?T = map (\<lambda>j. (int j, map (\<lambda>c. c ! j) (grid_cells Data uc)))
                           [0..<length (time Data)]"
      by (simp add: transposed_rows nc)
    have T: "?T = \<lparr>ncols = length (lat Data) * length (lon Data),
                     rows = map (\<lambda>j. (int j, map (\<lambda>c. c ! j) (grid_cells Data uc)))
                                [0..<length (time Data)]\<rparr>"
      by (rule dataframe.equality) (simp_all add: n r)
    show ?thesis
      unfolding T using False by (simp add: set_index_def nrows_def comp_def)
  qed
  then show ?thesis
    by (simp add: NetCDFToSHETRAN_def Let_def loops_grid_cells [OF wf])
qed

lemma flattener_column:
  assumes wf: "wf_dataset Data"
    and lat: "Lat < length (lat Data)" and lon: "Lon < length (lon Data)"
  shows "column \<lparr>ncols = length (lat Data) * length (lon Data),
                  rows = zip (time Data)
                           (map (\<lambda>t. map (\<lambda>c. c ! t) (grid_cells Data uc))
                                [0..<length (time Data)])\<rparr>
                (Lat * length (lon Data) + Lon)
           = map (\<lambda>t. np_round1 (at3 (Rainf Data) t Lat Lon * uc)) [0..<length (time Data)]"
proof -
  let ?c = "Lat * length (lon Data) + Lon"
  let ?cells = "grid_cells Data uc"
  let ?rows = "zip (time Data) (map (\<lambda>t. map (\<lambda>c. c ! t) ?cells) [0..<length (time Data)])"
  have c: "?c < length ?cells"
  proof -
    from lat have "Suc Lat * length (lon Data) \<le> length (lat Data) * length (lon Data)"
      by (intro mult_le_mono1) simp
    with lon show ?thesis
      by (simp add: length_grid)
  qed
  have sh: "fst (shape3 (Rainf Data)) = length (time Data)"
    using wf by (simp add: wf_dataset_def)
  have "map (\<lambda>r. snd r ! ?c) ?rows = map (\<lambda>x. x ! ?c) (map snd ?rows)"
    by (simp only: map_map o_def)
  also have "map snd ?rows = map (\<lambda>t. map (\<lambda>c. c ! t) ?cells) [0..<length (time Data)]"
    by (rule map_snd_zip) simp
  also have "map (\<lambda>x. x ! ?c) (map (\<lambda>t. map (\<lambda>c. c ! t) ?cells) [0..<length (time Data)])
               = map (\<lambda>t. ?cells ! ?c ! t) [0..<length (time Data)]"
    using c by simp
  also have "?cells ! ?c = expected_series (Rainf Data) uc Lat Lon"
    by (rule nth_grid [OF lat lon])
  also have "map (\<lambda>t. expected_series (Rainf Data) uc Lat Lon ! t) [0..<length (time Data)]
               = map (\<lambda>t. np_round1 (at3 (Rainf Data) t Lat Lon * uc)) [0..<length (time Data)]"
    by (simp add: expected_series_def sh)
  finally show ?thesis
    by (simp add: column_def)
qed

text \<open>
  C3. For every well-formed grid dataset with L latitudes, O longitudes and T time
  steps the flattener returns (and writes) a table with exactly L * O columns and T
  rows whose row index is the raw time coordinate and whose column at position
  Lat * O + Lon holds the converted series of cell (Lat, Lon): latitude outer loop,
  longitude inner loop. A grid without cells gives a table without columns that
  still has one row per time step.
\<close>

theorem C3_flattener_table:
  assumes wf: "wf_dataset Data"
  shows "\<exists>df. NetCDFToSHETRAN csvs Data Path File uc = Inr (df, csvs(Path @ File \<mapsto> df)) \<and>
              ncols df = length (lat Data) * length (lon Data) \<and>
              nrows df = length (time Data) \<and>
              index df = time Data \<and>
              wf_df df \<and>
              (\<forall>Lat < length (lat Data). \<forall>Lon < length (lon Data).
                 column df (Lat * length (lon Data) + Lon)
                   = map (\<lambda>t. np_round1 (at3 (Rainf Data) t Lat Lon * uc))
                         [0..<length (time Data)])"
proof -
  let ?df = "\<lparr>ncols = length (lat Data) * length (lon Data),
              rows = zip (time Data)
                       (map (\<lambda>t. map (\<lambda>c. c ! t) (grid_cells Data uc))
                            [0..<length (time Data)])\<rparr>"
  have 1: "NetCDFToSHETRAN csvs Data Path File uc = Inr (?df, csvs(Path @ File \<mapsto> ?df))"
    by (rule flattener_table [OF wf])
  have 2: "ncols ?df = length (lat Data) * length (lon Data)"
    by simp
  have 3: "nrows ?df = length (time Data)"
    by (simp add: nrows_def)
  have 4: "index ?df = time Data"
    by (simp add: index_def)
  have 5: "wf_df ?df"
    by (auto simp: wf_df_def list_all_iff length_grid dest!: set_zip_rightD)
  have 6: "\<forall>Lat < length (lat Data). \<forall>Lon < length (lon Data).
             column ?df (Lat * length (lon Data) + Lon)
               = map (\<lambda>t. np_round1 (at3 (Rainf Data) t Lat Lon * uc)) [0..<length (time Data)]"
    by (intro allI impI flattener_column [OF wf])
  show ?thesis
    by (rule exI [of _ ?df]) (intro conjI 1 2 3 4 5 6)
qed

theorem C3_flattener_table_witness:
  "wf_dataset example_dataset \<and>
   (\<exists>df. NetCDFToSHETRAN Map.empty example_dataset ''clipped/'' ''a_Clip.csv'' 1
            = Inr (df, [''clipped/a_Clip.csv'' \<mapsto> df]) \<and>
         ncols df = 6 \<and> nrows df = 2 \<and> index df = [0, 1] \<and>
         column df 5 = [np_round1 12, np_round1 112]) \<and>
   wf_dataset empty_grid \<and>
   (\<exists>df. NetCDFToSHETRAN Map.empty empty_grid ''clipped/'' ''b_Clip.csv'' 1
            = Inr (df, [''clipped/b_Clip.csv'' \<mapsto> df]) \<and>
         ncols df = 0 \<and> nrows df = 1 \<and> index df = [0])"
proof -
  have wf: "wf_dataset example_dataset"
    by (simp add: wf_dataset_def example_dataset_def)
  note inst = C3_flattener_table [OF wf, of Map.empty "''clipped/''" "''a_Clip.csv''" 1]
  from inst obtain df where df:
    "NetCDFToSHETRAN Map.empty example_dataset ''clipped/'' ''a_Clip.csv'' 1
       = Inr (df, Map.empty(''clipped/'' @ ''a_Clip.csv'' \<mapsto> df))"
    "ncols df = length (lat example_dataset) * length (lon example_dataset)"
    "nrows df = length (time example_dataset)"
    "index df = time example_dataset"
    "\<forall>Lat < length (lat example_dataset). \<forall>Lon < length (lon example_dataset).
       column df (Lat * length (lon example_dataset) + Lon)
         = map (\<lambda>t. np_round1 (at3 (Rainf example_dataset) t Lat Lon * 1))
               [0..<length (time example_dataset)]"
    by (elim exE conjE) (rule that; assumption)
  have a: "ncols df = 6" "nrows df = 2" "index df = [0, 1]"
    using df(2,3,4) by (simp_all add: example_lens)
  have "(1::nat) < length (lat example_dataset)" "(2::nat) < length (lon example_dataset)"
    by (simp_all add: example_lens)
  from df(5) [rule_format, OF this]
  have "column df (1 * length (lon example_dataset) + 2)
      = map (\<lambda>t. np_round1 (at3 (Rainf example_dataset) t 1 2 * 1))
            [0..<length (time example_dataset)]" .
  then have "column df 5 = [np_round1 (at3 (Rainf example_dataset) 0 1 2),
                            np_round1 (at3 (Rainf example_dataset) 1 1 2)]"
    by (simp add: example_lens)
  moreover have "at3 (Rainf example_dataset) 0 1 2 = 12" "at3 (Rainf example_dataset) 1 1 2 = 112"
    by (simp_all add: example_dataset_def)
  ultimately have b: "column df 5 = [np_round1 12, np_round1 112]"
    by (simp only:)
  have 1: "\<exists>df. NetCDFToSHETRAN Map.empty example_dataset ''clipped/'' ''a_Clip.csv'' 1
            = Inr (df, [''clipped/a_Clip.csv'' \<mapsto> df]) \<and>
         ncols df = 6 \<and> nrows df = 2 \<and> index df = [0, 1] \<and>
         column df 5 = [np_round1 12, np_round1 112]"
    using df(1) a b by (intro conjI exI [of _ df]) simp_all
  have wf0: "wf_dataset empty_grid"
    by (simp add: wf_dataset_def empty_grid_def)
  note inst0 = C3_flattener_table [OF wf0, of Map.empty "''clipped/''" "''b_Clip.csv''" 1]
  from inst0 obtain df0 where df0:
    "NetCDFToSHETRAN Map.empty empty_grid ''clipped/'' ''b_Clip.csv'' 1
       = Inr (df0, Map.empty(''clipped/'' @ ''b_Clip.csv'' \<mapsto> df0))"
    "ncols df0 = length (lat empty_grid) * length (lon empty_grid)"
    "nrows df0 = length (time empty_grid)"
    "index df0 = time empty_grid"
    by (elim exE conjE) (rule that; assumption)
  have a0: "ncols df0 = 0" "nrows df0 = 1" "index df0 = [0]"
    using df0(2,3,4) by (simp_all add: empty_grid_def)
  have 2: "\<exists>df. NetCDFToSHETRAN Map.empty empty_grid ''clipped/'' ''b_Clip.csv'' 1
            = Inr (df, [''clipped/b_Clip.csv'' \<mapsto> df]) \<and>
         ncols df = 0 \<and> nrows df = 1 \<and> index df = [0]"
    using df0(1) a0 by (intro conjI exI [of _ df0]) simp_all
  from wf 1 wf0 2 show ?thesis
    by (intro conjI)
qed

text \<open>
  C8. For every cell and time step the stored value is the raw value times the
  conversion factor, rounded to one decimal: it is a multiple of 0.1 at most 0.05
  away from the product. For a grid with 48 time steps, 2 latitudes and 3 longitudes
  the table has shape (48, 6), and a raw value 10 with factor 3.6 is stored as 36.
\<close>

theorem C8_flattener_values:
  assumes wf: "wf_dataset Data"
    and lat: "Lat < length (lat Data)" and lon: "Lon < length (lon Data)"
    and t: "t < length (time Data)"
  shows "\<exists>df. NetCDFToSHETRAN csvs Data Path File uc = Inr (df, csvs(Path @ File \<mapsto> df)) \<and>
              cell df t (Lat * length (lon Data) + Lon)
                = np_round1 (at3 (Rainf Data) t Lat Lon * uc) \<and>
              (\<exists>k :: int. cell df t (Lat * length (lon Data) + Lon) = of_int k / 10) \<and>
              \<bar>cell df t (Lat * length (lon Data) + Lon) - at3 (Rainf Data) t Lat Lon * uc\<bar>
                \<le> 1 / 20 \<and>
              (length (time Data) = 48 \<and> length (lat Data) = 2 \<and> length (lon Data) = 3
                 \<longrightarrow> nrows df = 48 \<and> ncols df = 6) \<and>
              (at3 (Rainf Data) t Lat Lon = 10 \<and> uc = 36 / 10
                 \<longrightarrow> cell df t (Lat * length (lon Data) + Lon) = 36)"
proof -
  let ?df = "\<lparr>ncols = length (lat Data) * length (lon Data),
              rows = zip (time Data)
                       (map (\<lambda>t. map (\<lambda>c. c ! t) (grid_cells Data uc))
                            [0..<length (time Data)])\<rparr>"
  let ?c = "Lat * length (lon Data) + Lon"
  have 1: "NetCDFToSHETRAN csvs Data Path File uc = Inr (?df, csvs(Path @ File \<mapsto> ?df))"
    by (rule flattener_table [OF wf])
  have "column ?df ?c ! t = np_round1 (at3 (Rainf Data) t Lat Lon * uc)"
    using t by (simp add: flattener_column [OF wf lat lon])
  moreover have "column ?df ?c ! t = cell ?df t ?c"
    using t by (simp add: column_def cell_def)
  ultimately have 2: "cell ?df t ?c = np_round1 (at3 (Rainf Data) t Lat Lon * uc)"
    by simp
  have 3: "\<exists>k :: int. cell ?df t ?c = of_int k / 10"
    unfolding 2 by (rule np_round1_decimal)
  have 4: "\<bar>cell ?df t ?c - at3 (Rainf Data) t Lat Lon * uc\<bar> \<le> 1 / 20"
    unfolding 2 by (rule np_round1_close)
  have 5: "length (time Data) = 48 \<and> length (lat Data) = 2 \<and> length (lon Data) = 3
             \<longrightarrow> nrows ?df = 48 \<and> ncols ?df = 6"
    by (simp add: nrows_def)
  have 6: "at3 (Rainf Data) t Lat Lon = 10 \<and> uc = 36 / 10 \<longrightarrow> cell ?df t ?c = 36"
  proof (intro impI, elim conjE)
    assume a: "at3 (Rainf Data) t Lat Lon = 10" and b: "uc = 36 / 10"
    note 2
    also have "np_round1 (at3 (Rainf Data) t Lat Lon * uc) = np_round1 (10 * (36 / 10))"
      by (simp only: a b)
    also have "\<dots> = 36"
      by (rule np_round1_example)
    finally show "cell ?df t ?c = 36" .
  qed
  show ?thesis
    by (rule exI [of _ ?df]) (intro conjI 1 2 3 4 5 6)
qed

lemma example48_lens:
  "length (time example_grid48) = 48" "length (lat example_grid48) = 2"
  "length (lon example_grid48) = 3" "at3 (Rainf example_grid48) t i j = 10"
  by (simp_all add: example_grid48_def)

theorem C8_flattener_values_witness:
  "wf_dataset example_grid48 \<and> (1::nat) < length (lat example_grid48) \<and>
   (2::nat) < length (lon example_grid48) \<and> (47::nat) < length (time example_grid48) \<and>
   (\<exists>df. NetCDFToSHETRAN Map.empty example_grid48 ''clipped/'' ''a_Clip.csv'' (36 / 10)
            = Inr (df, [''clipped/a_Clip.csv'' \<mapsto> df]) \<and>
         nrows df = 48 \<and> ncols df = 6 \<and> cell df 47 5 = 36)"
proof -
  have wf: "wf_dataset example_grid48"
    by (simp add: wf_dataset_def example_grid48_def)
  have h: "(1::nat) < length (lat example_grid48)" "(2::nat) < length (lon example_grid48)"
    "(47::nat) < length (time example_grid48)"
    by (simp_all add: example48_lens)
  note inst = C8_flattener_values [OF wf h, of Map.empty "''clipped/''" "''a_Clip.csv''" "36 / 10"]
  from inst obtain df where df:
    "NetCDFToSHETRAN Map.empty example_grid48 ''clipped/'' ''a_Clip.csv'' (36 / 10)
       = Inr (df, Map.empty(''clipped/'' @ ''a_Clip.csv'' \<mapsto> df))"
    "length (time example_grid48) = 48 \<and> length (lat example_grid48) = 2 \<and>
       length (lon example_grid48) = 3 \<longrightarrow> nrows df = 48 \<and> ncols df = 6"
    "at3 (Rainf example_grid48) 47 1 2 = 10 \<and> (36 / 10 :: real) = 36 / 10
       \<longrightarrow> cell df 47 (1 * length (lon example_grid48) + 2) = 36"
    by (elim exE conjE) (rule that; assumption)
  have a: "nrows df = 48" "ncols df = 6"
    using df(2) by (simp_all add: example48_lens)
  have b: "cell df 47 5 = 36"
    using df(3) by (simp add: example48_lens)
  show ?thesis
    using wf h df(1) a b by (intro conjI exI [of _ df]) simp_all
qed


section \<open>Table merger\<close>

lemma DateIndex_len_eq: "DateIndex_len = 973009"
  by (simp add: DateIndex_len_def days_in_year_def is_leap_def)

lemma map_int_upt_upto:
  assumes "0 \<le> a"
  shows "map int [nat a..<nat (b + 1)] = [a..b]"
proof (rule nth_equalityI)
  show len: "length (map int [nat a..<nat (b + 1)]) = length [a..b]"
    using assms by (simp add: length_upto)
  fix i
  assume "i < length (map int [nat a..<nat (b + 1)])"
  then have i: "i < nat (b + 1) - nat a"
    by simp
  with assms have "a + int i \<le> b"
    by linarith
  with i assms show "map int [nat a..<nat (b + 1)] ! i = [a..b] ! i"
    by (simp add: nth_upto)
qed

lemma DateIndex_slice:
  assumes "0 \<le> a" "a \<le> b" "b < int DateIndex_len"
  shows "py_slice a (b + 1) DateIndex = [a..b]"
proof -
  have sa: "slice_bound a (length DateIndex) = nat a"
    using assms by (simp add: slice_bound_def DateIndex_def)
  have sb: "slice_bound (b + 1) (length DateIndex) = nat (b + 1)"
    using assms by (simp add: slice_bound_def DateIndex_def)
  have "py_slice a (b + 1) DateIndex
          = take (nat (b + 1) - nat a) (drop (nat a) (map int [0..<DateIndex_len]))"
    by (simp add: py_slice_def Let_def sa sb) (simp add: DateIndex_def)
  also have "\<dots> = map int (take (nat (b + 1) - nat a) [nat a..<DateIndex_len])"
    by (simp add: drop_map take_map)
  also have "take (nat (b + 1) - nat a) [nat a..<DateIndex_len] = [nat a..<nat a + (nat (b + 1) - nat a)]"
    using assms by (intro take_upt) linarith
  also have "nat a + (nat (b + 1) - nat a) = nat (b + 1)"
    using assms by linarith
  also have "map int [nat a..<nat (b + 1)] = [a..b]"
    by (rule map_int_upt_upto [OF assms(1)])
  finally show ?thesis .
qed

lemma fold_min_upto:
  assumes "a \<le> b"
  shows "fold min [a + 1..b] a = a"
proof -
  have "fold min [a + 1..b] a = Min (set (a # [a + 1..b]))"
    by (simp only: Min.set_eq_fold)
  also have "a # [a + 1..b] = [a..b]"
    using assms by (simp add: upto_rec1)
  also have "Min (set [a..b]) = a"
    using assms by (intro Min_eqI) simp_all
  finally show ?thesis .
qed

lemma fold_max_upto:
  assumes "a \<le> b"
  shows "fold max [a + 1..b] a = b"
proof -
  have "fold max [a + 1..b] a = Max (set (a # [a + 1..b]))"
    by (simp only: Max.set_eq_fold)
  also have "a # [a + 1..b] = [a..b]"
    using assms by (simp add: upto_rec1)
  also have "Max (set [a..b]) = b"
    using assms by (intro Max_eqI) simp_all
  finally show ?thesis .
qed

lemma resample_hourly:
  assumes "a \<le> b" "length vs = length [a..b]"
  shows "resample_D_sum \<lparr>ncols = n, rows = zip [a..b] vs\<rparr> =
           \<lparr>ncols = n,
            rows = map (\<lambda>d. (24 * d, col_sums n (filter (\<lambda>r. day_of (fst r) = d) (zip [a..b] vs))))
                       [day_of a..day_of b]\<rparr>"
proof -
  have "index \<lparr>ncols = n, rows = zip [a..b] vs\<rparr> = [a..b]"
    using assms(2) by (simp add: index_def)
  also have "[a..b] = a # [a + 1..b]"
    using assms(1) by (simp add: upto_rec1)
  finally have "index \<lparr>ncols = n, rows = zip [a..b] vs\<rparr> = a # [a + 1..b]" .
  then show ?thesis
    by (simp add: resample_D_sum_def Let_def fold_min_upto [OF assms(1)] fold_max_upto [OF assms(1)])
qed

lemma pd_concat_rows:
  assumes "DfList \<noteq> []"
  shows "pd_concat DfList = Inr \<lparr>ncols = ncols (hd DfList), rows = concat (map rows DfList)\<rparr>"
  using assms by (cases DfList) (simp_all add: pd_concat_def)

lemma Mdf_daily_unfold:
  assumes ne: "DfList \<noteq> []"
    and S: "S = sort_key fst (concat (map rows DfList))"
    and nonempty: "S \<noteq> []"
  shows "Mdf_daily DfList =
           (case set_index \<lparr>ncols = ncols (hd DfList), rows = S\<rparr>
                   (py_slice (fst (hd S)) (fst (last S) + 1) DateIndex) of
              Inl e \<Rightarrow> Inl e
            | Inr Mdf' \<Rightarrow> Inr (resample_D_sum Mdf'))"
proof -
  let ?a = "fst (hd S)" and ?b = "fst (last S)" and ?n = "ncols (hd DfList)"
  let ?Mdf = "\<lparr>ncols = ?n, rows = S\<rparr>"
  have sorted: "sort_index \<lparr>ncols = ?n, rows = concat (map rows DfList)\<rparr> = ?Mdf"
    by (simp add: sort_index_def S)
  have idx: "index ?Mdf = map fst S"
    by (simp add: index_def)
  from nonempty obtain h hs where hhs: "index ?Mdf = h # hs"
    by (cases "index ?Mdf") (simp_all add: idx)
  have first: "hd (index ?Mdf) = ?a" and final: "last (index ?Mdf) = ?b"
    using nonempty by (simp_all add: idx hd_map last_map)
  have first': "hd (h # hs) = ?a" and final': "last (h # hs) = ?b"
    using first final by (simp_all only: hhs)
  have "Mdf_daily DfList
          = (case set_index ?Mdf (py_slice (hd (h # hs)) (last (h # hs) + 1) DateIndex) of
               Inl e \<Rightarrow> Inl e
             | Inr Mdf' \<Rightarrow> Inr (resample_D_sum Mdf'))"
    by (simp only: Mdf_daily_def pd_concat_rows [OF ne] sum.case Let_def sorted hhs list.case)
  then show ?thesis
    by (simp only: first' final')
qed

lemma col_sums_no_columns: "col_sums 0 rs = []"
  by (simp add: col_sums_def)

lemma Mdf_daily_rows:
  assumes ne: "DfList \<noteq> []"
    and S: "S = sort_key fst (concat (map rows DfList))"
    and nonempty: "S \<noteq> []"
    and lo: "0 \<le> fst (hd S)" and hi: "fst (last S) < int DateIndex_len"
    and count: "int (length S) = fst (last S) + 1 - fst (hd S)"
  shows "Mdf_daily DfList =
           Inr \<lparr>ncols = ncols (hd DfList),
                rows = map (\<lambda>d. (24 * d,
                                   col_sums (ncols (hd DfList))
                                     (filter (\<lambda>r. day_of (fst r) = d)
                                        (zip [fst (hd S)..fst (last S)] (map snd S)))))
                           [day_of (fst (hd S))..day_of (fst (last S))]\<rparr>"
proof -
  let ?a = "fst (hd S)" and ?b = "fst (last S)" and ?n = "ncols (hd DfList)"
  let ?Mdf = "\<lparr>ncols = ?n, rows = S\<rparr>"
  from nonempty have "0 < int (length S)" by simp
  with count have ab: "?a \<le> ?b" by linarith
  have slice: "py_slice ?a (?b + 1) DateIndex = [?a..?b]"
    by (rule DateIndex_slice [OF lo ab hi])
  have len: "length [?a..?b] = length S"
    using count ab by (simp add: length_upto)
  have unfold: "Mdf_daily DfList =
                  (case set_index ?Mdf [?a..?b] of
                     Inl e \<Rightarrow> Inl e
                   | Inr Mdf' \<Rightarrow> Inr (resample_D_sum Mdf'))"
    by (simp only: Mdf_daily_unfold [OF ne S nonempty] slice)
  show ?thesis
  proof (cases "?n = 0")
    case True
    let ?vs = "map (\<lambda>t :: nat. [] :: real list) [0..<length [?a..?b]]"
    have "set_index ?Mdf [?a..?b] = Inr \<lparr>ncols = ?n, rows = map (\<lambda>l. (l, [])) [?a..?b]\<rparr>"
      using True by (simp add: set_index_def)
    also have "map (\<lambda>l. (l, [])) [?a..?b] = zip [?a..?b] ?vs"
      by (rule zip_no_cells [symmetric])
    finally have set: "set_index ?Mdf [?a..?b] = Inr \<lparr>ncols = ?n, rows = zip [?a..?b] ?vs\<rparr>" .
    have lenv: "length ?vs = length [?a..?b]"
      by simp
    have "Mdf_daily DfList = Inr (resample_D_sum \<lparr>ncols = ?n, rows = zip [?a..?b] ?vs\<rparr>)"
      by (simp only: unfold set sum.case)
    then have "Mdf_daily DfList =
                 Inr \<lparr>ncols = ?n,
                      rows = map (\<lambda>d. (24 * d,
                                         col_sums ?n (filter (\<lambda>r. day_of (fst r) = d)
                                                        (zip [?a..?b] ?vs))))
                                 [day_of ?a..day_of ?b]\<rparr>"
      by (simp only: resample_hourly [OF ab lenv])
    then show ?thesis
      by (simp only: True col_sums_no_columns)
  next
    case False
    have set: "set_index ?Mdf [?a..?b] = Inr \<lparr>ncols = ?n, rows = zip [?a..?b] (map snd S)\<rparr>"
      using len False by (simp add: set_index_def nrows_def)
    have len': "length (map snd S) = length [?a..?b]"
      using len by simp
    have "Mdf_daily DfList = Inr (resample_D_sum \<lparr>ncols = ?n, rows = zip [?a..?b] (map snd S)\<rparr>)"
      by (simp only: unfold set sum.case)
    then show ?thesis
      by (simp only: resample_hourly [OF ab len'])
  qed
qed

lemma daily_table_cells:
  assumes "D = \<lparr>ncols = n,
                 rows = map (\<lambda>d. (24 * d, col_sums n (filter (\<lambda>r. day_of (fst r) = d) hourly)))
                            [da..db]\<rparr>"
  shows "ncols D = n"
    and "index D = map (\<lambda>d. 24 * d) [da..db]"
    and "nrows D = nat (db - da + 1)"
    and "k < nrows D \<Longrightarrow> j < ncols D \<Longrightarrow>
           cell D k j = sum_list (map (\<lambda>r. snd r ! j)
                                      (filter (\<lambda>r. day_of (fst r) = da + int k) hourly))"
proof -
  show "ncols D = n"
    by (simp add: assms)
  show "index D = map (\<lambda>d. 24 * d) [da..db]"
    by (simp add: assms index_def comp_def)
  show nr: "nrows D = nat (db - da + 1)"
    by (simp add: assms nrows_def length_upto)
  assume k: "k < nrows D" and j: "j < ncols D"
  from k nr have "da + int k \<le> db"
    by linarith
  then have "[da..db] ! k = da + int k"
    by (rule nth_upto)
  with k j show "cell D k j = sum_list (map (\<lambda>r. snd r ! j)
                                           (filter (\<lambda>r. day_of (fst r) = da + int k) hourly))"
    by (simp add: assms cell_def nrows_def col_sums_def)
qed

lemma adjacent_index:
  assumes order: "DfList = [t1, t2] \<or> DfList = [t2, t1]"
    and am: "a \<le> m" and mb: "m \<le> b"
    and m1: "index t1 = [a..m]" and m2: "index t2 = [m + 1..b]"
  shows "map fst (sort_key fst (concat (map rows DfList))) = [a..b]"
proof -
  let ?R = "concat (map rows DfList)"
  have split: "[a..b] = [a..m] @ [m + 1..b]"
    by (rule upto_split2 [OF am mb])
  have "mset (map fst ?R) = mset (index t1) + mset (index t2)"
    using order by (auto simp: index_def)
  then have "mset (map fst ?R) = mset [a..b]"
    by (simp only: m1 m2 split mset_append)
  then have m: "mset (map fst (sort_key fst ?R)) = mset [a..b]"
    by simp
  have "sort [a..b] = map fst (sort_key fst ?R)"
    using m by (intro properties_for_sort) (simp_all add: sorted_sort_key)
  moreover have "sort [a..b] = [a..b]"
    by (intro sorted_sort_id sorted_upto)
  ultimately show ?thesis by simp
qed

lemma adjacent_daily_table:
  assumes order: "DfList = [t1, t2] \<or> DfList = [t2, t1]"
    and am: "a \<le> m" and mb: "m \<le> b"
    and m1: "index t1 = [a..m]" and m2: "index t2 = [m + 1..b]"
    and lo: "0 \<le> a" and hi: "b < int DateIndex_len"
  shows "\<exists>D. Mdf_daily DfList = Inr D \<and>
              index D = map (\<lambda>d. 24 * d) [day_of a..day_of b] \<and>
              nrows D = nat (day_of b - day_of a + 1)"
proof -
  define S where "S = sort_key fst (concat (map rows DfList))"
  from am mb have ab: "a \<le> b" by simp
  have idx: "map fst S = [a..b]"
    unfolding S_def by (rule adjacent_index [OF order am mb m1 m2])
  have first: "[a..b] = a # [a + 1..b]"
    using ab by (simp add: upto_rec1)
  have final: "[a..b] = [a..b - 1] @ [b]"
    using ab by (simp add: upto_rec2)
  have ne: "DfList \<noteq> []"
    using order by auto
  have nonempty: "S \<noteq> []"
    using idx first by auto
  have "hd (map fst S) = a"
    by (simp only: idx) (simp only: first list.sel)
  moreover have "last (map fst S) = b"
    by (simp only: idx) (simp only: final last_snoc)
  ultimately have a: "fst (hd S) = a" and b: "fst (last S) = b"
    using nonempty by (simp_all add: hd_map last_map)
  have "length (map fst S) = nat (b - a + 1)"
    by (simp only: idx length_upto)
  then have len: "int (length S) = b + 1 - a"
    using ab by simp
  have lo': "0 \<le> fst (hd S)" and hi': "fst (last S) < int DateIndex_len"
    and count: "int (length S) = fst (last S) + 1 - fst (hd S)"
    using lo hi len by (simp_all only: a b)
  note daily = Mdf_daily_rows [OF ne S_def nonempty lo' hi' count]
  note facts = daily_table_cells(2,3) [OF refl,
      of "ncols (hd DfList)" "zip [fst (hd S)..fst (last S)] (map snd S)"
         "day_of (fst (hd S))" "day_of (fst (last S))"]
  show ?thesis
    using daily facts unfolding a b by (intro exI [of _ "_ :: dataframe"] conjI)
qed


text \<open>
  C5. The merger stacks the rows of the monthly tables without dropping any, sorts
  them by label, gives row \<open>p\<close> of the sorted table the calendar timestamp
  \<open>first + p\<close> hours after the epoch (the slice of the hourly sequence from the first
  raw label to the last raw label plus one), and resamples to one row per calendar
  day, each cell the column's sum over that day's hourly rows. Whenever the labels
  start at or after the epoch, end inside the calendar and the row count is the
  length of that slice, the daily table has one row for every day from the first to
  the last, without gaps. For two monthly tables with raw labels 0..743 and
  744..1487, in either order, the daily table has the 62 consecutive days 0..61.
\<close>

theorem C5_merger:
  assumes ne: "DfList \<noteq> []" and S: "S = sort_key fst (concat (map rows DfList))"
  shows "sorted (map fst S) \<and> mset S = mset (concat (map rows DfList)) \<and>
         (S \<noteq> [] \<and> 0 \<le> fst (hd S) \<and> fst (last S) < int DateIndex_len \<and>
          int (length S) = fst (last S) + 1 - fst (hd S) \<longrightarrow>
            (\<exists>D. Mdf_daily DfList = Inr D \<and> ncols D = ncols (hd DfList) \<and>
                  index D = map (\<lambda>d. 24 * d) [day_of (fst (hd S))..day_of (fst (last S))] \<and>
                  (\<forall>k < nrows D. \<forall>j < ncols D.
                     cell D k j =
                       sum_list (map (\<lambda>r. snd r ! j)
                         (filter (\<lambda>r. day_of (fst r) = day_of (fst (hd S)) + int k)
                            (zip [fst (hd S)..fst (last S)] (map snd S))))))) \<and>
         (\<forall>t1 t2. (DfList = [t1, t2] \<or> DfList = [t2, t1]) \<and>
                  index t1 = [0..743] \<and> index t2 = [744..1487] \<longrightarrow>
            (\<exists>D. Mdf_daily DfList = Inr D \<and> index D = map (\<lambda>d. 24 * d) [0..61] \<and>
                  nrows D = 62))"
proof (intro conjI)
  show "sorted (map fst S)"
    unfolding S by (rule sorted_sort_key)
  show "mset S = mset (concat (map rows DfList))"
    unfolding S by (rule mset_sort)
  show "S \<noteq> [] \<and> 0 \<le> fst (hd S) \<and> fst (last S) < int DateIndex_len \<and>
        int (length S) = fst (last S) + 1 - fst (hd S) \<longrightarrow>
          (\<exists>D. Mdf_daily DfList = Inr D \<and> ncols D = ncols (hd DfList) \<and>
                index D = map (\<lambda>d. 24 * d) [day_of (fst (hd S))..day_of (fst (last S))] \<and>
                (\<forall>k < nrows D. \<forall>j < ncols D.
                   cell D k j =
                     sum_list (map (\<lambda>r. snd r ! j)
                       (filter (\<lambda>r. day_of (fst r) = day_of (fst (hd S)) + int k)
                          (zip [fst (hd S)..fst (last S)] (map snd S))))))"
  proof (intro impI, elim conjE)
    assume h: "S \<noteq> []" "0 \<le> fst (hd S)" "fst (last S) < int DateIndex_len"
      "int (length S) = fst (last S) + 1 - fst (hd S)"
    let ?D = "\<lparr>ncols = ncols (hd DfList),
                rows = map (\<lambda>d. (24 * d,
                                   col_sums (ncols (hd DfList))
                                     (filter (\<lambda>r. day_of (fst r) = d)
                                        (zip [fst (hd S)..fst (last S)] (map snd S)))))
                           [day_of (fst (hd S))..day_of (fst (last S))]\<rparr>"
    have 1: "Mdf_daily DfList = Inr ?D"
      by (rule Mdf_daily_rows [OF ne S h])
    have 2: "ncols ?D = ncols (hd DfList)"
      by simp
    have 3: "index ?D = map (\<lambda>d. 24 * d) [day_of (fst (hd S))..day_of (fst (last S))]"
      by (rule daily_table_cells(2) [OF refl])
    have 4: "\<forall>k < nrows ?D. \<forall>j < ncols ?D.
               cell ?D k j =
                 sum_list (map (\<lambda>r. snd r ! j)
                   (filter (\<lambda>r. day_of (fst r) = day_of (fst (hd S)) + int k)
                      (zip [fst (hd S)..fst (last S)] (map snd S))))"
      by (intro allI impI daily_table_cells(4) [OF refl])
    show "\<exists>D. Mdf_daily DfList = Inr D \<and> ncols D = ncols (hd DfList) \<and>
              index D = map (\<lambda>d. 24 * d) [day_of (fst (hd S))..day_of (fst (last S))] \<and>
              (\<forall>k < nrows D. \<forall>j < ncols D.
                 cell D k j =
                   sum_list (map (\<lambda>r. snd r ! j)
                     (filter (\<lambda>r. day_of (fst r) = day_of (fst (hd S)) + int k)
                        (zip [fst (hd S)..fst (last S)] (map snd S)))))"
      by (rule exI [of _ ?D]) (intro conjI 1 2 3 4)
  qed
  show "\<forall>t1 t2. (DfList = [t1, t2] \<or> DfList = [t2, t1]) \<and>
                 index t1 = [0..743] \<and> index t2 = [744..1487] \<longrightarrow>
          (\<exists>D. Mdf_daily DfList = Inr D \<and> index D = map (\<lambda>d. 24 * d) [0..61] \<and>
                nrows D = 62)"
  proof (intro allI impI, elim conjE)
    fix t1 t2
    assume order: "DfList = [t1, t2] \<or> DfList = [t2, t1]"
      and m1: "index t1 = [0..743]" and m2: "index t2 = [744..1487]"
    have e: "(743 :: int) + 1 = 744"
      by simp
    have m2': "index t2 = [743 + 1..1487]"
      by (simp only: m2 e)
    have b: "(0 :: int) \<le> 743" "(743 :: int) \<le> 1487" "(0 :: int) \<le> 0"
      "(1487 :: int) < int DateIndex_len"
      by (simp_all add: DateIndex_len_eq)
    have days: "day_of 0 = 0" "day_of 1487 = 61" "nat (61 - 0 + 1) = 62"
      by (simp_all add: day_of_def)
    from adjacent_daily_table [OF order b(1,2) m1 m2' b(3,4)]
    show "\<exists>D. Mdf_daily DfList = Inr D \<and> index D = map (\<lambda>d. 24 * d) [0..61] \<and> nrows D = 62"
      by (simp only: days)
  qed
qed

lemma monthly_tables_index: "index january = [0..743]" "index february = [744..1487]"
  by (simp_all add: index_def january_def february_def comp_def del: upto_rec_numeral)

theorem C5_merger_witness:
  "[february, january] \<noteq> [] \<and>
   (\<exists>D. Mdf_daily [february, january] = Inr D \<and> index D = map (\<lambda>d. 24 * d) [0..61] \<and>
         nrows D = 62) \<and>
   (\<exists>D. Mdf_daily [\<lparr>ncols = 1, rows = [(24, [2]), (25, [4])]\<rparr>, \<lparr>ncols = 1, rows = [(23, [1])]\<rparr>]
           = Inr D \<and>
         index D = [0, 24] \<and> cell D 0 0 = 1 \<and> cell D 1 0 = 6)"
proof -
  have ne: "[february, january] \<noteq> []"
    by simp
  note monthly = C5_merger [OF ne refl, THEN conjunct2, THEN conjunct2, THEN conjunct2,
      rule_format, of january february]
  have m: "\<exists>D. Mdf_daily [february, january] = Inr D \<and> index D = map (\<lambda>d. 24 * d) [0..61] \<and>
             nrows D = 62"
    by (rule monthly) (intro conjI disjI2 refl monthly_tables_index)
  let ?L = "[\<lparr>ncols = 1, rows = [(24, [2]), (25, [4 :: real])]\<rparr>, \<lparr>ncols = 1, rows = [(23 :: int, [1])]\<rparr>]"
  let ?S = "[(23 :: int, [1 :: real]), (24, [2]), (25, [4])]"
  have ne2: "?L \<noteq> []"
    by simp
  have S: "?S = sort_key fst (concat (map rows ?L))"
    by simp
  note general = C5_merger [OF ne2 S, THEN conjunct2, THEN conjunct2, THEN conjunct1, rule_format]
  have pre: "?S \<noteq> [] \<and> 0 \<le> fst (hd ?S) \<and> fst (last ?S) < int DateIndex_len \<and>
             int (length ?S) = fst (last ?S) + 1 - fst (hd ?S)"
    by (simp add: DateIndex_len_eq)
  from general [OF pre] obtain D where D:
    "Mdf_daily ?L = Inr D" "ncols D = ncols (hd ?L)"
    "index D = map (\<lambda>d. 24 * d) [day_of (fst (hd ?S))..day_of (fst (last ?S))]"
    "\<forall>k < nrows D. \<forall>j < ncols D.
       cell D k j =
         sum_list (map (\<lambda>r. snd r ! j)
           (filter (\<lambda>r. day_of (fst r) = day_of (fst (hd ?S)) + int k)
              (zip [fst (hd ?S)..fst (last ?S)] (map snd ?S))))"
    by (elim exE conjE) (rule that; assumption)
  have i: "index D = [0, 24]"
    using D(3) by (simp add: day_of_def upto_rec1)
  then have n: "nrows D = 2"
    by (simp add: index_def nrows_def flip: length_map [of fst])
  have c: "ncols D = 1"
    using D(2) by simp
  have z: "zip [fst (hd ?S)..fst (last ?S)] (map snd ?S) = ?S"
    by (simp add: upto_rec1)
  have "cell D 0 0 = 1" "cell D 1 0 = 6"
    using D(4) [rule_format, of 0 0] D(4) [rule_format, of 1 0]
    by (simp_all add: n c z day_of_def)
  with D(1) i have g: "\<exists>D. Mdf_daily ?L = Inr D \<and> index D = [0, 24] \<and> cell D 0 0 = 1 \<and> cell D 1 0 = 6"
    by (intro exI [of _ D] conjI)
  from ne m g show ?thesis
    by (intro conjI)
qed





section \<open>ASC grid parser\<close>

lemma col_loop_ok:
  assumes "Line < length g" "Col + length toks \<le> length (g ! Line)"
  shows "col_loop g Line toks Col =
           Inr (g[Line := take Col (g ! Line) @ map Str toks @ drop (Col + length toks) (g ! Line)])"
  using assms
proof (induction toks arbitrary: g Col)
  case Nil
  then show ?case by simp
next
  case (Cons t toks)
  let ?row = "g ! Line"
  let ?g' = "g[Line := ?row[Col := Str t]]"
  from Cons.prems have col: "Col < length ?row" by simp
  have set: "iloc_set g Line Col (Str t) = Inr ?g'"
    using Cons.prems(1) col by (simp add: iloc_set_def)
  have row': "?g' ! Line = ?row[Col := Str t]"
    using Cons.prems(1) by simp
  have "col_loop ?g' Line toks (Suc Col) =
          Inr (?g'[Line := take (Suc Col) (?g' ! Line) @ map Str toks
                            @ drop (Suc Col + length toks) (?g' ! Line)])"
    using Cons.prems by (intro Cons.IH) simp_all
  also have "take (Suc Col) (?g' ! Line) = take Col ?row @ [Str t]"
    using col by (simp add: row' take_Suc_conv_app_nth)
  also have "drop (Suc Col + length toks) (?g' ! Line) = drop (Suc Col + length toks) ?row"
    by (simp add: row')
  finally show ?case
    by (simp add: set)
qed

lemma line_loop_ok:
  assumes "Line + length ls \<le> length g"
    and "\<forall>k < length ls. length (split_ws (ls ! k)) \<le> length (g ! (Line + k))"
  shows "\<exists>g'. line_loop g ls Line = Inr g' \<and> length g' = length g \<and>
              (\<forall>i < length g.
                 g' ! i = (if Line \<le> i \<and> i < Line + length ls
                           then map Str (split_ws (ls ! (i - Line)))
                                  @ drop (length (split_ws (ls ! (i - Line)))) (g ! i)
                           else g ! i))"
  using assms
proof (induction ls arbitrary: g Line)
  case Nil
  then show ?case by auto
next
  case (Cons l ls)
  let ?new = "map Str (split_ws l) @ drop (length (split_ws l)) (g ! Line)"
  let ?g1 = "g[Line := ?new]"
  from Cons.prems(1) have line: "Line < length g" by simp
  from Cons.prems(2) have fit: "length (split_ws l) \<le> length (g ! Line)"
    by (auto dest: spec [of _ 0])
  have c: "col_loop g Line (split_ws l) 0 = Inr ?g1"
    using col_loop_ok [OF line, of 0 "split_ws l"] fit by simp
  have p1: "Suc Line + length ls \<le> length ?g1"
    using Cons.prems(1) by simp
  have p2: "\<forall>k < length ls. length (split_ws (ls ! k)) \<le> length (?g1 ! (Suc Line + k))"
  proof (intro allI impI)
    fix k
    assume k: "k < length ls"
    then have "length (split_ws ((l # ls) ! Suc k)) \<le> length (g ! (Line + Suc k))"
      using Cons.prems(2) by (auto dest: spec [of _ "Suc k"])
    then show "length (split_ws (ls ! k)) \<le> length (?g1 ! (Suc Line + k))"
      by simp
  qed
  from Cons.IH [OF p1 p2] obtain g' where g':
    "line_loop ?g1 ls (Suc Line) = Inr g'" "length g' = length ?g1"
    "\<forall>i < length ?g1.
       g' ! i = (if Suc Line \<le> i \<and> i < Suc Line + length ls
                 then map Str (split_ws (ls ! (i - Suc Line)))
                        @ drop (length (split_ws (ls ! (i - Suc Line)))) (?g1 ! i)
                 else ?g1 ! i)"
    by (elim exE conjE) (rule that; assumption)
  have 1: "line_loop g (l # ls) Line = Inr g'"
    by (simp add: c g'(1))
  have 2: "length g' = length g"
    using g'(2) by simp
  have 3: "\<forall>i < length g.
             g' ! i = (if Line \<le> i \<and> i < Line + length (l # ls)
                       then map Str (split_ws ((l # ls) ! (i - Line)))
                              @ drop (length (split_ws ((l # ls) ! (i - Line)))) (g ! i)
                       else g ! i)"
  proof (intro allI impI)
    fix i
    assume i: "i < length g"
    with g'(3) have eq: "g' ! i = (if Suc Line \<le> i \<and> i < Suc Line + length ls
                 then map Str (split_ws (ls ! (i - Suc Line)))
                        @ drop (length (split_ws (ls ! (i - Suc Line)))) (?g1 ! i)
                 else ?g1 ! i)"
      by simp
    consider "i < Line" | "i = Line" | "Suc Line \<le> i"
      by linarith
    then show "g' ! i = (if Line \<le> i \<and> i < Line + length (l # ls)
                       then map Str (split_ws ((l # ls) ! (i - Line)))
                              @ drop (length (split_ws ((l # ls) ! (i - Line)))) (g ! i)
                       else g ! i)"
    proof cases
      case 1
      with eq show ?thesis by simp
    next
      case 2
      with eq line show ?thesis by simp
    next
      case 3
      then have "(l # ls) ! (i - Line) = ls ! (i - Suc Line)"
        by (simp add: nth_Cons') 
      with 3 eq show ?thesis by simp
    qed
  qed
  from 1 2 3 show ?case by blast
qed

lemma float_row_ok:
  assumes "\<forall>c \<in> set row. \<forall>s. c = Str s \<longrightarrow> parse s \<noteq> None"
  shows "\<exists>xs. float_row parse row = Inr xs \<and> length xs = length row \<and>
              (\<forall>j < length row. xs ! j = (case row ! j of Num x \<Rightarrow> x | Str s \<Rightarrow> the (parse s)))"
  using assms
proof (induction row)
  case Nil
  then show ?case by simp
next
  case (Cons c cs)
  from Cons.prems have "\<forall>c \<in> set cs. \<forall>s. c = Str s \<longrightarrow> parse s \<noteq> None"
    by simp
  from Cons.IH [OF this] obtain xs where xs:
    "float_row parse cs = Inr xs" "length xs = length cs"
    "\<forall>j < length cs. xs ! j = (case cs ! j of Num x \<Rightarrow> x | Str s \<Rightarrow> the (parse s))"
    by (elim exE conjE) (rule that; assumption)
  from Cons.prems obtain x where x:
    "float_cell parse c = Inr x" "x = (case c of Num x \<Rightarrow> x | Str s \<Rightarrow> the (parse s))"
    by (cases c) auto
  have 1: "float_row parse (c # cs) = Inr (x # xs)"
    by (simp add: x(1) xs(1))
  have 2: "length (x # xs) = length (c # cs)"
    by (simp add: xs(2))
  have 3: "\<forall>j < length (c # cs).
             (x # xs) ! j = (case (c # cs) ! j of Num x \<Rightarrow> x | Str s \<Rightarrow> the (parse s))"
    using x(2) xs(3) by (auto simp: nth_Cons')
  from 1 2 3 show ?case by blast
qed

lemma np_float64_ok:
  assumes "\<forall>row \<in> set g. \<forall>c \<in> set row. \<forall>s. c = Str s \<longrightarrow> parse s \<noteq> None"
  shows "\<exists>xss. np_float64 parse g = Inr xss \<and> length xss = length g \<and>
               (\<forall>i < length g. length (xss ! i) = length (g ! i) \<and>
                  (\<forall>j < length (g ! i).
                     xss ! i ! j = (case g ! i ! j of Num x \<Rightarrow> x | Str s \<Rightarrow> the (parse s))))"
  using assms
proof (induction g)
  case Nil
  then show ?case by simp
next
  case (Cons r rs)
  from Cons.prems have "\<forall>row \<in> set rs. \<forall>c \<in> set row. \<forall>s. c = Str s \<longrightarrow> parse s \<noteq> None"
    by simp
  from Cons.IH [OF this] obtain xss where xss:
    "np_float64 parse rs = Inr xss" "length xss = length rs"
    "\<forall>i < length rs. length (xss ! i) = length (rs ! i) \<and>
       (\<forall>j < length (rs ! i).
          xss ! i ! j = (case rs ! i ! j of Num x \<Rightarrow> x | Str s \<Rightarrow> the (parse s)))"
    by (elim exE conjE) (rule that; assumption)
  from Cons.prems have "\<forall>c \<in> set r. \<forall>s. c = Str s \<longrightarrow> parse s \<noteq> None"
    by simp
  from float_row_ok [OF this] obtain xs where xs:
    "float_row parse r = Inr xs" "length xs = length r"
    "\<forall>j < length r. xs ! j = (case r ! j of Num x \<Rightarrow> x | Str s \<Rightarrow> the (parse s))"
    by (elim exE conjE) (rule that; assumption)
  have 1: "np_float64 parse (r # rs) = Inr (xs # xss)"
    by (simp add: xs(1) xss(1))
  have 2: "length (xs # xss) = length (r # rs)"
    by (simp add: xss(2))
  have 3: "\<forall>i < length (r # rs). length ((xs # xss) ! i) = length ((r # rs) ! i) \<and>
             (\<forall>j < length ((r # rs) ! i).
                (xs # xss) ! i ! j
                  = (case (r # rs) ! i ! j of Num x \<Rightarrow> x | Str s \<Rightarrow> the (parse s)))"
  proof (intro allI impI)
    fix i
    assume "i < length (r # rs)"
    then show "length ((xs # xss) ! i) = length ((r # rs) ! i) \<and>
             (\<forall>j < length ((r # rs) ! i).
                (xs # xss) ! i ! j
                  = (case (r # rs) ! i ! j of Num x \<Rightarrow> x | Str s \<Rightarrow> the (parse s)))"
      using xs(2,3) xss(3) by (cases i) simp_all
  qed
  from 1 2 3 show ?case by blast
qed

lemma asc_drop: "drop 6 (asc_header @ ls) = ls"
  by (simp add: asc_header_def)

lemma split_examples:
  "split_ws (rstrip ''abc'') = [''abc'']"
  "split_ws (rstrip ''1.5 2'') = [''1.5'', ''2'']"
  "split_ws (rstrip ''3'') = [''3'']"
  by (simp_all add: split_ws_def rstrip_def is_space_def)

lemma literal_examples:
  "decimal_literal ''abc'' = None"
  "decimal_literal ''1.5'' = Some (3 / 2)"
  "decimal_literal ''2'' = Some 2"
  "decimal_literal ''3'' = Some 3"
  by (simp_all add: decimal_literal_def unsigned_literal_def is_digit_def nat_of_digits_def
        digit_of_def)

text \<open>
  C10, as stated, fails on a file whose shape fits but which holds a token that is no
  float literal: the final conversion raises ValueError and no table is returned.
\<close>

theorem C10_unparsable_token_counterexample:
  "length (drop 6 (asc_header @ [''abc''])) \<le> 1 \<and>
   length (split_ws (rstrip (drop 6 (asc_header @ [''abc'']) ! 0))) \<le> 1 \<and>
   ASCtoDfParam decimal_literal (asc_header @ [''abc'']) 1 1 = Inl ValueError"
proof -
  have "drop 6 (map rstrip (asc_header @ [''abc''])) = [rstrip ''abc'']"
    by (simp only: drop_map asc_drop list.map)
  then have c: "ASCtoDfParam decimal_literal (asc_header @ [''abc'']) 1 1 = Inl ValueError"
    by (simp add: ASCtoDfParam_def split_examples np_zeros_def iloc_set_def literal_examples)
  have a: "length (drop 6 (asc_header @ [''abc''])) \<le> 1"
    unfolding asc_drop by simp
  have b: "length (split_ws (rstrip (drop 6 (asc_header @ [''abc'']) ! 0))) \<le> 1"
    unfolding asc_drop by (simp add: split_examples)
  from a b c show ?thesis
    by (intro conjI)
qed

text \<open>
  C10, amended. If the file has at most \<open>Nrows\<close> data lines after the six header
  lines, every data line has at most \<open>Ncols\<close> white-space separated tokens, and every
  token is a float literal, the parser returns a table of exactly \<open>Nrows\<close> rows and
  \<open>Ncols\<close> columns of numbers, labelled 0, 1, ...; the cell at a position supplied
  by a token is that token's value, and every other cell is exactly 0.
\<close>

theorem C10_asc_table:
  assumes rowsok: "length (drop 6 FileLines) \<le> Nrows"
    and colsok: "\<forall>i < length (drop 6 FileLines). length (asc_tokens FileLines i) \<le> Ncols"
    and floats: "\<forall>i < length (drop 6 FileLines). \<forall>tok \<in> set (asc_tokens FileLines i).
                   str_to_float tok \<noteq> None"
  shows "\<exists>df. ASCtoDfParam str_to_float FileLines Nrows Ncols = Inr df \<and>
              ncols df = Ncols \<and> nrows df = Nrows \<and> wf_df df \<and>
              index df = map int [0..<Nrows] \<and>
              (\<forall>i < Nrows. \<forall>j < Ncols.
                 cell df i j =
                   (if i < length (drop 6 FileLines) \<and> j < length (asc_tokens FileLines i)
                    then the (str_to_float (asc_tokens FileLines i ! j))
                    else 0))"
proof -
  let ?ls = "drop 6 (map rstrip FileLines)"
  let ?g = "np_zeros Nrows Ncols"
  have len_ls: "length ?ls = length (drop 6 FileLines)"
    by simp
  have tok: "split_ws (?ls ! k) = asc_tokens FileLines k" if "k < length (drop 6 FileLines)" for k
    using that by (simp add: asc_tokens_def drop_map)
  have tok2: "split_ws (rstrip (FileLines ! (6 + k))) = asc_tokens FileLines k"
    if "k < length FileLines - 6" for k
    using that by (simp add: asc_tokens_def)
  have len_g: "length ?g = Nrows"
    by (simp add: np_zeros_def)
  have row_g: "?g ! i = replicate Ncols (Num 0)" if "i < Nrows" for i
    using that by (simp add: np_zeros_def)
  have a1: "0 + length ?ls \<le> length ?g"
    using rowsok by (simp add: len_g)
  have a2: "\<forall>k < length ?ls. length (split_ws (?ls ! k)) \<le> length (?g ! (0 + k))"
  proof (intro allI impI)
    fix k
    assume k: "k < length ?ls"
    then have k': "k < length (drop 6 FileLines)" by simp
    with rowsok have kn: "k < Nrows" by simp
    from colsok k' have "length (asc_tokens FileLines k) \<le> Ncols" by blast
    then show "length (split_ws (?ls ! k)) \<le> length (?g ! (0 + k))"
      unfolding tok [OF k'] by (simp add: row_g [OF kn])
  qed
  from line_loop_ok [OF a1 a2] obtain g' where g':
    "line_loop ?g ?ls 0 = Inr g'" "length g' = length ?g"
    "\<forall>i < length ?g.
       g' ! i = (if 0 \<le> i \<and> i < 0 + length ?ls
                 then map Str (split_ws (?ls ! (i - 0)))
                        @ drop (length (split_ws (?ls ! (i - 0)))) (?g ! i)
                 else ?g ! i)"
    by (elim exE conjE) (rule that; assumption)
  have row': "g' ! i = (if i < length (drop 6 FileLines)
                        then map Str (asc_tokens FileLines i)
                               @ replicate (Ncols - length (asc_tokens FileLines i)) (Num 0)
                        else replicate Ncols (Num 0))" if "i < Nrows" for i
    using g'(3) that by (simp add: len_g row_g tok2)
  have len_row': "length (g' ! i) = Ncols" if "i < Nrows" for i
    using that colsok by (simp add: row')
  have cell': "g' ! i ! j = (if i < length (drop 6 FileLines) \<and> j < length (asc_tokens FileLines i)
                             then Str (asc_tokens FileLines i ! j) else Num 0)"
    if "i < Nrows" "j < Ncols" for i j
    using that by (simp add: row' nth_append)
  have parse: "\<forall>row \<in> set g'. \<forall>c \<in> set row. \<forall>s. c = Str s \<longrightarrow> str_to_float s \<noteq> None"
  proof (intro ballI allI impI)
    fix row c s
    assume "row \<in> set g'" "c \<in> set row" "c = Str s"
    then obtain i where i: "i < Nrows" "row = g' ! i"
      using g'(2) by (auto simp: in_set_conv_nth len_g)
    with \<open>c \<in> set row\<close> \<open>c = Str s\<close>
    have "i < length (drop 6 FileLines) \<and> s \<in> set (asc_tokens FileLines i)"
      by (auto simp: row' split: if_splits)
    with floats show "str_to_float s \<noteq> None"
      by blast
  qed
  from np_float64_ok [OF parse] obtain xss where xss:
    "np_float64 str_to_float g' = Inr xss" "length xss = length g'"
    "\<forall>i < length g'. length (xss ! i) = length (g' ! i) \<and>
       (\<forall>j < length (g' ! i).
          xss ! i ! j = (case g' ! i ! j of Num x \<Rightarrow> x | Str s \<Rightarrow> the (str_to_float s)))"
    by (elim exE conjE) (rule that; assumption)
  have len_xss: "length xss = Nrows"
    using xss(2) g'(2) by (simp add: len_g)
  let ?df = "\<lparr>ncols = Ncols, rows = zip (map int [0..<Nrows]) xss\<rparr>"
  have 1: "ASCtoDfParam str_to_float FileLines Nrows Ncols = Inr ?df"
    by (simp add: ASCtoDfParam_def g'(1) xss(1))
  have 2: "ncols ?df = Ncols"
    by simp
  have 3: "nrows ?df = Nrows"
    by (simp add: nrows_def len_xss)
  have 4: "wf_df ?df"
  proof -
    have "length r = Ncols" if "r \<in> set xss" for r
    proof -
      from that obtain i where "i < Nrows" "r = xss ! i"
        by (auto simp: in_set_conv_nth len_xss)
      with xss(3) g'(2) show ?thesis
        by (simp add: len_g len_row')
    qed
    then show ?thesis
      by (auto simp: wf_df_def list_all_iff dest!: set_zip_rightD)
  qed
  have 5: "index ?df = map int [0..<Nrows]"
    by (simp add: index_def len_xss)
  have 6: "\<forall>i < Nrows. \<forall>j < Ncols.
             cell ?df i j =
               (if i < length (drop 6 FileLines) \<and> j < length (asc_tokens FileLines i)
                then the (str_to_float (asc_tokens FileLines i ! j))
                else 0)"
  proof (intro allI impI)
    fix i j
    assume i: "i < Nrows" and j: "j < Ncols"
    have "cell ?df i j = xss ! i ! j"
      using i by (simp add: cell_def len_xss)
    also have "\<dots> = (case g' ! i ! j of Num x \<Rightarrow> x | Str s \<Rightarrow> the (str_to_float s))"
      using xss(3) g'(2) i j by (simp add: len_g len_row')
    also have "\<dots> = (if i < length (drop 6 FileLines) \<and> j < length (asc_tokens FileLines i)
                      then the (str_to_float (asc_tokens FileLines i ! j))
                      else 0)"
      by (simp add: cell' [OF i j])
    finally show "cell ?df i j =
               (if i < length (drop 6 FileLines) \<and> j < length (asc_tokens FileLines i)
                then the (str_to_float (asc_tokens FileLines i ! j))
                else 0)" .
  qed
  show ?thesis
    by (rule exI [of _ ?df]) (intro conjI 1 2 3 4 5 6)
qed

theorem C10_asc_table_witness:
  "length (drop 6 (asc_header @ [''1.5 2'', ''3''])) \<le> 2 \<and>
   asc_tokens (asc_header @ [''1.5 2'', ''3'']) 0 = [''1.5'', ''2''] \<and>
   asc_tokens (asc_header @ [''1.5 2'', ''3'']) 1 = [''3''] \<and>
   (\<exists>df. ASCtoDfParam decimal_literal (asc_header @ [''1.5 2'', ''3'']) 2 3 = Inr df \<and>
         ncols df = 3 \<and> nrows df = 2 \<and> index df = [0, 1] \<and>
         cell df 0 0 = 3 / 2 \<and> cell df 0 1 = 2 \<and> cell df 0 2 = 0 \<and>
         cell df 1 0 = 3 \<and> cell df 1 1 = 0 \<and> cell df 1 2 = 0)"
proof -
  let ?F = "asc_header @ [''1.5 2'', ''3'']"
  have len: "length (drop 6 ?F) = 2"
    unfolding asc_drop by simp
  have t0: "asc_tokens ?F 0 = [''1.5'', ''2'']" and t1: "asc_tokens ?F 1 = [''3'']"
    unfolding asc_tokens_def asc_drop by (simp_all add: split_examples)
  have two: "i < 2 \<longleftrightarrow> i = 0 \<or> i = 1" for i :: nat
    by auto
  have h1: "length (drop 6 ?F) \<le> 2"
    by (simp only: len)
  have h2: "\<forall>i < length (drop 6 ?F). length (asc_tokens ?F i) \<le> 3"
    unfolding len two using t0 t1 by auto
  have h3: "\<forall>i < length (drop 6 ?F). \<forall>tok \<in> set (asc_tokens ?F i). decimal_literal tok \<noteq> None"
  proof (intro allI impI ballI)
    fix i tok
    assume "i < length (drop 6 ?F)" and tok: "tok \<in> set (asc_tokens ?F i)"
    then have "i = 0 \<or> i = 1"
      by (simp only: len two)
    with tok t0 t1 have "tok = ''1.5'' \<or> tok = ''2'' \<or> tok = ''3''"
      by auto
    then show "decimal_literal tok \<noteq> None"
      using literal_examples by (elim disjE) simp_all
  qed
  from C10_asc_table [OF h1 h2 h3, unfolded len] obtain df where df:
    "ASCtoDfParam decimal_literal ?F 2 3 = Inr df" "ncols df = 3" "nrows df = 2"
    "index df = map int [0..<2]"
    "\<forall>i < 2. \<forall>j < 3.
       cell df i j = (if i < 2 \<and> j < length (asc_tokens ?F i)
                      then the (decimal_literal (asc_tokens ?F i ! j)) else 0)"
    by (elim exE conjE) (rule that; assumption)
  have i: "index df = [0, 1]"
    using df(4) by (simp add: upt_rec)
  have c0: "cell df 0 0 = 3 / 2" "cell df 0 1 = 2" "cell df 0 2 = 0"
    using df(5) [rule_format, of 0 0] df(5) [rule_format, of 0 1] df(5) [rule_format, of 0 2]
    unfolding t0 by (simp_all add: literal_examples)
  have c1: "cell df 1 0 = 3" "cell df 1 1 = 0" "cell df 1 2 = 0"
    using df(5) [rule_format, of 1 0] df(5) [rule_format, of 1 1] df(5) [rule_format, of 1 2]
    unfolding t1 by (simp_all add: literal_examples)
  note c = c0 c1
  from df(1,2,3) i c have "\<exists>df. ASCtoDfParam decimal_literal ?F 2 3 = Inr df \<and>
         ncols df = 3 \<and> nrows df = 2 \<and> index df = [0, 1] \<and>
         cell df 0 0 = 3 / 2 \<and> cell df 0 1 = 2 \<and> cell df 0 2 = 0 \<and>
         cell df 1 0 = 3 \<and> cell df 1 1 = 0 \<and> cell df 1 2 = 0"
    by (intro exI [of _ df] conjI)
  with h1 t0 t1 show ?thesis
    by (intro conjI)
qed

end
